theory Spec2Isabelle
  imports Complex_Main "HOL-Library.Multiset" "HOL-Library.Sublist" "HOL-Library.AList"
begin

section \<open>Pricing presenter (src/components/details/TieredPricingTable.tsx)\<close>

text \<open>
  A \<open>PriceTier\<close> row as the component reads it. Prices are JavaScript numbers, that is
  finite double-precision values: a price is modelled by the rational number the double
  denotes, and a quantity by an integer. Comparisons of doubles are exact. The amounts of
  lines 63-65 are kept as exact products and differences; the percentage of line 28 is
  computed as the code computes it, every operation rounded to a double (below).
  \<open>discounted_unit_price\<close> is optional in the source, hence an \<open>option\<close>.
\<close>

record price_tier =
  tier_id :: string
  min_quantity :: int
  unit_price :: rat
  discounted_unit_price :: "rat option"

text \<open>
  \<open>x || fallback\<close> on an optional number: \<open>undefined\<close>, \<open>null\<close> and \<open>0\<close> are falsy.
\<close>

definition truthy :: "rat option \<Rightarrow> rat option" where
  "truthy d = (case d of None \<Rightarrow> None | Some x \<Rightarrow> if x = 0 then None else Some x)"

text \<open>Line 23: \<open>[...tiers].sort((a, b) => a.min_quantity - b.min_quantity)\<close>, a stable sort.\<close>

definition sortedTiers :: "price_tier list \<Rightarrow> price_tier list" where
  "sortedTiers tiers = sort_key min_quantity tiers"

text \<open>Line 24: \<open>baseDiscountedPrice || basePrice\<close>.\<close>

definition baseUnitPrice :: "rat \<Rightarrow> rat option \<Rightarrow> rat" where
  "baseUnitPrice basePrice baseDiscountedPrice =
     (case truthy baseDiscountedPrice of Some d \<Rightarrow> d | None \<Rightarrow> basePrice)"

subsection \<open>Double-precision arithmetic\<close>

text \<open>
  The result of an arithmetic operation on doubles is the exact result rounded to the
  nearest double, ties to the even significand (IEEE 754 binary64, the only rounding
  JavaScript has). \<open>bitlength n\<close> is the number of binary digits of a positive \<open>n\<close>, \<open>pow2 e\<close> is
  \<open>2\<close> to the power \<open>e\<close>, and \<open>floorLog2 x\<close> is the exponent \<open>k\<close> with
  \<open>pow2 k \<le> x < pow2 (k + 1)\<close>, for a positive \<open>x\<close>.
\<close>

function bitlength :: "int \<Rightarrow> nat" where
  "bitlength n = (if n \<le> 0 then 0 else Suc (bitlength (n div 2)))"
  by pat_completeness auto
termination
  by (relation "measure nat") auto

declare bitlength.simps [simp del]

definition pow2 :: "int \<Rightarrow> rat" where
  "pow2 e = (if 0 \<le> e then 2 ^ nat e else 1 / 2 ^ nat (- e))"

definition floorLog2 :: "rat \<Rightarrow> int" where
  "floorLog2 x =
     (if 1 \<le> x then int (bitlength \<lfloor>x\<rfloor>) - 1
      else - int (bitlength (\<lceil>1 / x\<rceil> - 1)))"

text \<open>The nearest integer, ties to the even one.\<close>

definition roundHalfEven :: "rat \<Rightarrow> int" where
  "roundHalfEven m =
     (let f = \<lfloor>m\<rfloor>; d = m - of_int f
      in if d < 1 / 2 then f
         else if 1 / 2 < d then f + 1
         else if even f then f else f + 1)"

text \<open>
  A number that an operation on finite doubles can produce when the divisor is not zero:
  a finite double, or an infinity after an overflow.
\<close>

datatype number = Finite rat | PosInfinity | NegInfinity

text \<open>
  The double nearest to the exact value \<open>x\<close>. A double has a significand of 53 binary
  digits: \<open>x\<close> is rounded to a multiple of \<open>pow2 e\<close>, where \<open>e\<close> is 52 below the exponent
  of \<open>x\<close> and not below \<open>-1074\<close>, the exponent of the smallest subnormal double. A
  rounded magnitude of \<open>pow2 1024\<close> or more overflows to an infinity. The two zeros of the
  format are not told apart.
\<close>

definition toDouble :: "rat \<Rightarrow> number" where
  "toDouble x =
     (if x = 0 then Finite 0
      else
        let a = \<bar>x\<bar>;
            e = max (floorLog2 a - 52) (- 1074);
            r = of_int (roundHalfEven (a / pow2 e)) * pow2 e
        in if pow2 1024 \<le> r then (if 0 < x then PosInfinity else NegInfinity)
           else Finite (if 0 < x then r else - r))"

text \<open>
  \<open>a / b\<close> and \<open>a * b\<close> for a finite double \<open>b\<close> that is not zero, which is what the
  second operand is at both places of line 28.
\<close>

definition divDouble :: "number \<Rightarrow> rat \<Rightarrow> number" where
  "divDouble a b =
     (case a of
        Finite x \<Rightarrow> toDouble (x / b)
      | PosInfinity \<Rightarrow> if 0 < b then PosInfinity else NegInfinity
      | NegInfinity \<Rightarrow> if 0 < b then NegInfinity else PosInfinity)"

definition timesDouble :: "number \<Rightarrow> rat \<Rightarrow> number" where
  "timesDouble a b =
     (case a of
        Finite x \<Rightarrow> toDouble (x * b)
      | PosInfinity \<Rightarrow> if 0 < b then PosInfinity else NegInfinity
      | NegInfinity \<Rightarrow> if 0 < b then NegInfinity else PosInfinity)"

text \<open>
  \<open>Math.round\<close>: the nearest integer, a half rounded towards plus infinity; an infinity
  stays what it is.
\<close>

definition mathRound :: "number \<Rightarrow> number" where
  "mathRound a =
     (case a of
        Finite x \<Rightarrow> Finite (of_int \<lfloor>x + 1 / 2\<rfloor>)
      | PosInfinity \<Rightarrow> PosInfinity
      | NegInfinity \<Rightarrow> NegInfinity)"

subsection \<open>The rows of the table\<close>

text \<open>
  Lines 26-29: \<open>Math.round(((originalPrice - newPrice) / originalPrice) * 100)\<close>, three
  operations on doubles and a rounding to an integer, behind the guard of line 27.
\<close>

definition calculateSavingsPercentage :: "rat \<Rightarrow> rat \<Rightarrow> number" where
  "calculateSavingsPercentage originalPrice newPrice =
     (if originalPrice \<le> 0 then Finite 0
      else mathRound
             (timesDouble (divDouble (toDouble (originalPrice - newPrice)) originalPrice) 100))"

text \<open>
  Lines 59-70: the test \<open>discountedPrice && discountedPrice > 0 && discountedPrice < unitPrice\<close>,
  written three times in the source, where \<open>discountedPrice\<close> is
  \<open>tier.discounted_unit_price || null\<close>.
\<close>

definition hasDiscount :: "price_tier \<Rightarrow> bool" where
  "hasDiscount tier =
     (case truthy (discounted_unit_price tier) of
        None \<Rightarrow> False
      | Some d \<Rightarrow> 0 < d \<and> d < unit_price tier)"

definition effectivePrice :: "price_tier \<Rightarrow> rat" where
  "effectivePrice tier =
     (case truthy (discounted_unit_price tier) of
        None \<Rightarrow> unit_price tier
      | Some d \<Rightarrow> if 0 < d \<and> d < unit_price tier then d else unit_price tier)"

text \<open>The values computed for one table row (lines 58-70).\<close>

record tier_row =
  row_tier :: price_tier
  row_hasDiscount :: bool
  row_effectivePrice :: rat
  totalAtQty :: rat
  baseTotal :: rat
  savings :: rat
  savingsPercentage :: number
  discountPercentage :: number

definition tierRow :: "rat \<Rightarrow> price_tier \<Rightarrow> tier_row" where
  "tierRow base tier =
     (let unitPrice = unit_price tier;
          effective = effectivePrice tier;
          total = effective * of_int (min_quantity tier);
          btotal = base * of_int (min_quantity tier)
      in \<lparr> row_tier = tier,
           row_hasDiscount = hasDiscount tier,
           row_effectivePrice = effective,
           totalAtQty = total,
           baseTotal = btotal,
           savings = btotal - total,
           savingsPercentage = calculateSavingsPercentage base effective,
           discountPercentage =
             (case truthy (discounted_unit_price tier) of
                None \<Rightarrow> Finite 0
              | Some d \<Rightarrow>
                  if 0 < d \<and> d < unitPrice then calculateSavingsPercentage unitPrice d
                  else Finite 0) \<rparr>)"

definition tierRows :: "price_tier list \<Rightarrow> rat \<Rightarrow> rat option \<Rightarrow> tier_row list" where
  "tierRows tiers basePrice baseDiscountedPrice =
     map (tierRow (baseUnitPrice basePrice baseDiscountedPrice)) (sortedTiers tiers)"

text \<open>Line 21: an empty tier list renders nothing (\<open>null\<close>).\<close>

definition TieredPricingTable :: "price_tier list \<Rightarrow> rat \<Rightarrow> rat option \<Rightarrow> tier_row list option" where
  "TieredPricingTable tiers basePrice baseDiscountedPrice =
     (if tiers = [] then None else Some (tierRows tiers basePrice baseDiscountedPrice))"

text \<open>The tiers of the spec's worked example, in the order given there.\<close>

definition exampleTiers :: "price_tier list" where
  "exampleTiers =
     [\<lparr> tier_id = ''a'', min_quantity = 10, unit_price = 9, discounted_unit_price = None \<rparr>,
      \<lparr> tier_id = ''b'', min_quantity = 50, unit_price = 7, discounted_unit_price = None \<rparr>,
      \<lparr> tier_id = ''c'', min_quantity = 5, unit_price = 19 / 2, discounted_unit_price = None \<rparr>]"

section \<open>Media manager (ProductImageManager, src/unnamed/part_000, lines 1-408)\<close>

subsection \<open>Data\<close>

text \<open>
  A browser \<open>Blob\<close> is its bytes and MIME type; a \<open>File\<close> adds a name, and its \<open>size\<close>
  is the number of bytes.
\<close>

record blob =
  blob_data :: string
  blob_type :: string

record file_obj =
  file_name :: string
  file_type :: string
  file_data :: string

definition file_size :: "file_obj \<Rightarrow> nat" where
  "file_size f = length (file_data f)"

datatype media_type = Image

text \<open>
  \<open>MediaItem\<close> (lines 11-20). The fields \<open>id\<close> and \<open>file\<close> are named \<open>id_item\<close> and \<open>file_item\<close>
  here; the optional fields are options.
\<close>

record media_item =
  id_item :: string
  url :: string
  file_item :: "file_obj option"
  isFeatured :: bool
  mediaType :: media_type
  fileHash :: "string option"
  visualFingerprint :: "string option"
  blobUrl :: "string option"

text \<open>
  The validator lives in \<open>@/lib/fileValidation\<close>, which is not part of the sources at hand:
  it is a parameter of the model. These are the options the manager passes to it
  (lines 82-90) and the fields of its result that the manager reads (lines 92-114).
  The three maps of the result are optional in the source and read through
  \<open>?.get(name) || ''\<close>, so a missing map behaves as an empty one.
\<close>

record validation_options =
  opt_maxFileSize :: int
  allowedTypes :: "string list"
  existingFiles :: "file_obj list"
  existingHashes :: "string set"
  existingFingerprints :: "string set"
  existingBlobUrls :: "string set"
  similarityThreshold :: int

record validation_result =
  validFiles :: "file_obj list"
  invalid :: "(string \<times> string) list"
  duplicates :: "string list"
  hashes :: "string \<rightharpoonup> string"
  fingerprints :: "string \<rightharpoonup> string"
  blobUrls :: "string \<rightharpoonup> string"

text \<open>
  The notifications of the component, one constructor per \<open>toast\<close> call:
  \<^item> \<open>InfoBusy\<close>: \<open>toast.info('Aguarde o processamento anterior terminar')\<close> (lines 55, 204);
  \<^item> \<open>ErrorLimit n\<close>: the limit of \<open>n\<close> images is reached (line 67);
  \<^item> \<open>ErrorInvalid name reason\<close>: one rejected file (line 94);
  \<^item> \<open>WarningDuplicates names\<close>: duplicates ignored (line 99);
  \<^item> \<open>ErrorNoValid\<close>: no valid image to add (line 104);
  \<^item> \<open>SuccessAdded n bytes\<close>: \<open>n\<close> images added (lines 144-146);
  \<^item> \<open>ErrorProcessing\<close>: the \<open>catch\<close> of \<open>handleFileSelect\<close> (line 149);
  \<^item> \<open>SuccessCropped\<close>: line 184.
  Writes to the console are not recorded.
\<close>

datatype toast =
    InfoBusy
  | ErrorLimit int
  | ErrorInvalid string string
  | WarningDuplicates "string list"
  | ErrorNoValid
  | SuccessAdded nat nat
  | ErrorProcessing
  | SuccessCropped

text \<open>Calls into the blob registry of \<open>@/lib/blobUrlValidator\<close> (lines 119, 243).\<close>

datatype registry_call =
    RegisterBlobUrl string string string
  | RevokeBlobUrl string

text \<open>
  The state of one mounted component. \<open>images\<close> is the prop of that name: the host is taken
  to pass back the list it last received through \<open>onChange\<close>. \<open>fileReferencesRef\<close> is the
  JavaScript \<open>Map\<close> of line 41 as an association list (\<open>AList.update\<close> is \<open>Map.set\<close>,
  \<open>AList.delete\<close> is \<open>Map.delete\<close>). The effects on the browser are logged:
  \<open>revokedObjectURLs\<close> lists the arguments of the \<open>URL.revokeObjectURL\<close> calls in order,
  \<open>createdObjectURLs\<close> and \<open>uuidCount\<close> count the calls of \<open>URL.createObjectURL\<close> and
  \<open>uuidv4\<close>.
\<close>

record manager =
  images :: "media_item list"
  dragOver :: bool
  showCropper :: bool
  imageToRecrop :: "media_item option"
  isProcessing :: bool
  processingQueueRef :: bool
  fileReferencesRef :: "(string \<times> file_obj \<times> string) list"
  toasts :: "toast list"
  revokedObjectURLs :: "string list"
  createdObjectURLs :: nat
  uuidCount :: nat
  registryCalls :: "registry_call list"

text \<open>The props \<open>maxImages\<close> and \<open>maxFileSize\<close> (defaults 10 and 5, lines 32-33).\<close>

record props =
  maxImages :: int
  maxFileSize :: int

text \<open>
  What the component gets from outside: the \<open>n\<close>-th result of \<open>uuidv4()\<close>, the \<open>n\<close>-th
  URL handed out by \<open>URL.createObjectURL\<close>, and the validator (\<open>None\<close>: its promise
  rejects).
\<close>

record environment =
  uuidv4 :: "nat \<Rightarrow> string"
  createObjectURL :: "nat \<Rightarrow> string"
  validateFilesWithMultiLayerValidation ::
    "file_obj list \<Rightarrow> validation_options \<Rightarrow> validation_result option"

subsection \<open>Adding files: \<open>handleFileSelect\<close> (lines 51-158)\<close>

text \<open>
  \<open>xs.slice(0, end)\<close>: a negative \<open>end\<close> counts from the end of the array, and the result
  is clamped to the array.
\<close>

definition slice0 :: "'a list \<Rightarrow> int \<Rightarrow> 'a list" where
  "slice0 xs e = (if e < 0 then take (nat (int (length xs) + e)) xs else take (nat e) xs)"

text \<open>Lines 63-64.\<close>

definition filesToAdd :: "props \<Rightarrow> media_item list \<Rightarrow> file_obj list \<Rightarrow> file_obj list" where
  "filesToAdd p imgs files = slice0 files (maxImages p - int (length imgs))"

text \<open>Lines 71-90.\<close>

definition validationOptions :: "props \<Rightarrow> media_item list \<Rightarrow> validation_options" where
  "validationOptions p imgs =
     \<lparr> opt_maxFileSize = maxFileSize p,
       allowedTypes = [''image/png'', ''image/jpeg'', ''image/webp'', ''image/jpg''],
       existingFiles = List.map_filter file_item imgs,
       existingHashes = set (List.map_filter fileHash imgs),
       existingFingerprints = set (List.map_filter visualFingerprint imgs),
       existingBlobUrls = set (List.map_filter blobUrl imgs),
       similarityThreshold = 5 \<rparr>"

text \<open>\<open>m?.get(k) || ''\<close>.\<close>

definition getOrEmpty :: "(string \<rightharpoonup> string) \<Rightarrow> string \<Rightarrow> string" where
  "getOrEmpty m k = (case m k of None \<Rightarrow> [] | Some v \<Rightarrow> v)"

text \<open>
  Lines 109-138: the callback of \<open>validFiles.map\<close>, run from left to right. \<open>wasEmpty\<close> is
  \<open>images.length === 0\<close> and \<open>index\<close> the position in \<open>validFiles\<close>.
\<close>

fun newImages ::
  "environment \<Rightarrow> validation_result \<Rightarrow> bool \<Rightarrow> nat \<Rightarrow> file_obj list \<Rightarrow> manager
     \<Rightarrow> media_item list \<times> manager" where
  "newImages env vr wasEmpty index [] s = ([], s)"
| "newImages env vr wasEmpty index (f # fs) s =
     (let uniqueId = ''new-'' @ uuidv4 env (uuidCount s);
          newUrl = createObjectURL env (createdObjectURLs s);
          hash = getOrEmpty (hashes vr) (file_name f);
          fingerprint = getOrEmpty (fingerprints vr) (file_name f);
          burl = getOrEmpty (blobUrls vr) (file_name f);
          s1 = s \<lparr> uuidCount := Suc (uuidCount s),
                   createdObjectURLs := Suc (createdObjectURLs s),
                   fileReferencesRef := AList.update uniqueId (f, newUrl) (fileReferencesRef s),
                   registryCalls :=
                     (if hash \<noteq> [] \<and> fingerprint \<noteq> []
                      then registryCalls s @ [RegisterBlobUrl burl hash fingerprint]
                      else registryCalls s) \<rparr>;
          item = \<lparr> id_item = uniqueId,
                   url = newUrl,
                   file_item = Some f,
                   isFeatured = (wasEmpty \<and> index = 0),
                   mediaType = Image,
                   fileHash = Some hash,
                   visualFingerprint = Some fingerprint,
                   blobUrl = Some burl \<rparr>;
          rest = newImages env vr wasEmpty (Suc index) fs s1
      in (item # fst rest, snd rest))"

text \<open>
  The \<open>finally\<close> block (lines 150-157). It also clears the value of the file input
  (line 155), an effect on the page that the state below does not record.
\<close>

definition finallyDone :: "manager \<Rightarrow> manager" where
  "finallyDone s = s \<lparr> isProcessing := False, processingQueueRef := False \<rparr>"

text \<open>
  \<open>handleFileSelect\<close> suspends once, at the \<open>await\<close> of the validator (line 82). What it
  holds across the suspension is the \<open>images\<close> of its closure and \<open>filesToAdd\<close>. The
  objects of that list are the ones the host holds as well (line 233 updates one of them in
  place). Here, and in the handlers below, lists are values: this is what one handler does
  from the values it finds. Which objects are shared, and what happens between the two
  halves of \<open>handleFileSelect\<close>, is followed further down.
\<close>

record pending_add =
  p_images :: "media_item list"
  p_filesToAdd :: "file_obj list"

text \<open>
  Lines 51-82, up to the \<open>await\<close>: the new state, and the suspended call if there is one.
  \<open>files\<close> is \<open>FileList | null\<close>.
\<close>

definition handleFileSelect_begin ::
  "props \<Rightarrow> manager \<Rightarrow> file_obj list option \<Rightarrow> manager \<times> pending_add option" where
  "handleFileSelect_begin p s files =
     (case files of
        None \<Rightarrow> (s, None)
      | Some fs \<Rightarrow>
          if fs = [] then (s, None)
          else if processingQueueRef s then (s \<lparr> toasts := toasts s @ [InfoBusy] \<rparr>, None)
          else
            let s1 = s \<lparr> processingQueueRef := True, isProcessing := True \<rparr>;
                fta = filesToAdd p (images s) fs
            in if fta = []
               then (finallyDone (s1 \<lparr> toasts := toasts s1 @ [ErrorLimit (maxImages p)] \<rparr>), None)
               else (s1, Some \<lparr> p_images = images s, p_filesToAdd = fta \<rparr>))"

text \<open>
  Lines 92-157, from the \<open>await\<close> on, with the outcome of the validator (\<open>None\<close>: it threw,
  and the \<open>catch\<close> of line 147 runs).
\<close>

definition handleFileSelect_resume ::
  "environment \<Rightarrow> manager \<Rightarrow> pending_add \<Rightarrow> validation_result option \<Rightarrow> manager" where
  "handleFileSelect_resume env s pend outcome =
     finallyDone
       (case outcome of
          None \<Rightarrow> s \<lparr> toasts := toasts s @ [ErrorProcessing] \<rparr>
        | Some vr \<Rightarrow>
            let s1 = s \<lparr> toasts := toasts s @ map (\<lambda>(n, r). ErrorInvalid n r) (invalid vr) \<rparr>;
                s2 = (if duplicates vr \<noteq> []
                      then s1 \<lparr> toasts := toasts s1 @ [WarningDuplicates (duplicates vr)] \<rparr>
                      else s1)
            in if validFiles vr = []
               then (if invalid vr = [] \<and> duplicates vr = []
                     then s2 \<lparr> toasts := toasts s2 @ [ErrorNoValid] \<rparr>
                     else s2)
               else
                 let new = newImages env vr (p_images pend = []) 0 (validFiles vr) s2;
                     s3 = snd new;
                     combinedImages = p_images pend @ fst new
                 in s3 \<lparr> images := combinedImages,
                         toasts := toasts s3 @
                           [SuccessAdded (length (validFiles vr))
                              (sum_list (map file_size (validFiles vr)))] \<rparr>)"

text \<open>The whole call, when nothing else runs while it is suspended.\<close>

definition handleFileSelect ::
  "environment \<Rightarrow> props \<Rightarrow> manager \<Rightarrow> file_obj list option \<Rightarrow> manager" where
  "handleFileSelect env p s files =
     (case handleFileSelect_begin p s files of
        (s1, None) \<Rightarrow> s1
      | (s1, Some pend) \<Rightarrow>
          handleFileSelect_resume env s1 pend
            (validateFilesWithMultiLayerValidation env (p_filesToAdd pend)
               (validationOptions p (p_images pend))))"

text \<open>Lines 199-209.\<close>

definition handleDrop :: "environment \<Rightarrow> props \<Rightarrow> manager \<Rightarrow> file_obj list option \<Rightarrow> manager" where
  "handleDrop env p s files =
     (let s1 = s \<lparr> dragOver := False \<rparr>
      in if isProcessing s1 then s1 \<lparr> toasts := toasts s1 @ [InfoBusy] \<rparr>
         else handleFileSelect env p s1 files)"

subsection \<open>Cropping (lines 160-196)\<close>

text \<open>Lines 193-196 and 188-191.\<close>

definition handleRecropImage :: "manager \<Rightarrow> media_item \<Rightarrow> manager" where
  "handleRecropImage s img = s \<lparr> imageToRecrop := Some img, showCropper := True \<rparr>"

definition handleCropCancel :: "manager \<Rightarrow> manager" where
  "handleCropCancel s = s \<lparr> showCropper := False, imageToRecrop := None \<rparr>"

text \<open>
  Lines 166-179: the callback of \<open>images.map\<close>, run from left to right, for the id \<open>rid\<close> of
  \<open>imageToRecrop\<close>.
\<close>

fun recropImages ::
  "environment \<Rightarrow> file_obj \<Rightarrow> string \<Rightarrow> media_item list \<Rightarrow> manager
     \<Rightarrow> media_item list \<times> manager" where
  "recropImages env croppedFile rid [] s = ([], s)"
| "recropImages env croppedFile rid (img # imgs) s =
     (if id_item img = rid then
        let s1 = (case map_of (fileReferencesRef s) (id_item img) of
                    Some oldRef \<Rightarrow> s \<lparr> revokedObjectURLs := revokedObjectURLs s @ [snd oldRef] \<rparr>
                  | None \<Rightarrow> s);
            newUrl = createObjectURL env (createdObjectURLs s1);
            s2 = s1 \<lparr> createdObjectURLs := Suc (createdObjectURLs s1),
                      fileReferencesRef :=
                        AList.update (id_item img) (croppedFile, newUrl) (fileReferencesRef s1) \<rparr>;
            rest = recropImages env croppedFile rid imgs s2
        in (img \<lparr> url := newUrl, file_item := Some croppedFile \<rparr> # fst rest, snd rest)
      else
        let rest = recropImages env croppedFile rid imgs s
        in (img # fst rest, snd rest))"

text \<open>Lines 160-186.\<close>

definition handleCropComplete :: "environment \<Rightarrow> manager \<Rightarrow> blob \<Rightarrow> manager" where
  "handleCropComplete env s croppedBlob =
     (case imageToRecrop s of
        None \<Rightarrow> s
      | Some target \<Rightarrow>
          let croppedFile = \<lparr> file_name = ''recropped-'' @ uuidv4 env (uuidCount s) @ ''.jpg'',
                               file_type = ''image/jpeg'',
                               file_data = blob_data croppedBlob \<rparr>;
              s1 = s \<lparr> uuidCount := Suc (uuidCount s) \<rparr>;
              updated = recropImages env croppedFile (id_item target) (images s) s1;
              s2 = snd updated
          in s2 \<lparr> images := fst updated,
                  showCropper := False,
                  imageToRecrop := None,
                  toasts := toasts s2 @ [SuccessCropped] \<rparr>)"

subsection \<open>Featured flag and removal (lines 220-252)\<close>

definition setFeaturedImage :: "manager \<Rightarrow> string \<Rightarrow> manager" where
  "setFeaturedImage s imageId =
     s \<lparr> images := map (\<lambda>img. img \<lparr> isFeatured := (id_item img = imageId) \<rparr>) (images s) \<rparr>"

text \<open>Line 233: \<open>remainingImages[0].isFeatured = true\<close>.\<close>

definition promoteFirst :: "media_item list \<Rightarrow> media_item list" where
  "promoteFirst xs = (case xs of [] \<Rightarrow> [] | x # rest \<Rightarrow> x \<lparr> isFeatured := True \<rparr> # rest)"

definition removeImage :: "manager \<Rightarrow> string \<Rightarrow> manager" where
  "removeImage s imageId =
     (let imageToRemove = find (\<lambda>img. id_item img = imageId) (images s);
          remainingImages = filter (\<lambda>img. id_item img \<noteq> imageId) (images s);
          remainingImages1 =
            (case imageToRemove of
               Some r \<Rightarrow> if isFeatured r \<and> remainingImages \<noteq> []
                         then promoteFirst remainingImages else remainingImages
             | None \<Rightarrow> remainingImages);
          s1 = (case map_of (fileReferencesRef s) imageId of
                  Some ref \<Rightarrow>
                    s \<lparr> revokedObjectURLs := revokedObjectURLs s @ [snd ref],
                        fileReferencesRef := AList.delete imageId (fileReferencesRef s) \<rparr>
                | None \<Rightarrow> s);
          s2 = (case imageToRemove of
                  Some r \<Rightarrow>
                    (case blobUrl r of
                       Some b \<Rightarrow> if b \<noteq> [] then s1 \<lparr> registryCalls := registryCalls s1 @ [RevokeBlobUrl b] \<rparr>
                                 else s1
                     | None \<Rightarrow> s1)
                | None \<Rightarrow> s1)
      in s2 \<lparr> images := remainingImages1 \<rparr>)"

text \<open>Lines 43-49: on unmount every URL still in the map is revoked.\<close>

definition unmount :: "manager \<Rightarrow> manager" where
  "unmount s = s \<lparr> revokedObjectURLs := revokedObjectURLs s @ map (\<lambda>(k, r). snd r) (fileReferencesRef s) \<rparr>"

subsection \<open>Objects, and events while an addition is suspended\<close>

text \<open>
  A \<open>MediaItem\<close> is a JavaScript object and \<open>images\<close> an array of references to such
  objects. \<open>handleFileSelect\<close> gives the control back at its \<open>await\<close> (line 82), and the
  buttons of the images stay enabled meanwhile (only the file input and the drop zone are
  disabled, lines 343 and 354): another handler can run before \<open>handleFileSelect\<close> goes on,
  and \<open>handleFileSelect\<close> then goes on with the array of its own closure. To follow this,
  a page holds the objects created so far (\<open>objects\<close>, an address is a position in it),
  the array the host passes as \<open>images\<close> as the addresses of its elements (\<open>imagesRef\<close>),
  the state of the component (\<open>mstate\<close>, whose \<open>images\<close> is the list of values that array
  denotes), and the suspended call if there is one: the array of its closure, its
  \<open>filesToAdd\<close>, and what the validator will answer.
\<close>

type_synonym addr = nat

record suspended_add =
  c_images :: "addr list"
  c_filesToAdd :: "file_obj list"
  c_outcome :: "validation_result option"

record page =
  objects :: "media_item list"
  imagesRef :: "addr list"
  mstate :: manager
  suspended :: "suspended_add option"

definition deref :: "media_item list \<Rightarrow> addr list \<Rightarrow> media_item list" where
  "deref objs as = map (\<lambda>a. objs ! a) as"

text \<open>The host renders the component again with its array.\<close>

definition render :: "page \<Rightarrow> page" where
  "render pg = pg \<lparr> mstate := (mstate pg) \<lparr> images := deref (objects pg) (imagesRef pg) \<rparr> \<rparr>"

text \<open>A page that shows the images of a component state, each image an object of its own.\<close>

definition mount :: "manager \<Rightarrow> page" where
  "mount s =
     \<lparr> objects = images s, imagesRef = [0 ..< length (images s)], mstate = s, suspended = None \<rparr>"

text \<open>
  Lines 51-82 of \<open>handleFileSelect\<close>: when the call reaches the \<open>await\<close>, it is suspended
  with the array of the current render.
\<close>

definition handleFileSelect_start ::
  "environment \<Rightarrow> props \<Rightarrow> page \<Rightarrow> file_obj list option \<Rightarrow> page" where
  "handleFileSelect_start env p pg files =
     (case handleFileSelect_begin p (mstate pg) files of
        (s1, None) \<Rightarrow> pg \<lparr> mstate := s1 \<rparr>
      | (s1, Some pend) \<Rightarrow>
          pg \<lparr> mstate := s1,
               suspended := Some
                 \<lparr> c_images = imagesRef pg,
                   c_filesToAdd = p_filesToAdd pend,
                   c_outcome = validateFilesWithMultiLayerValidation env (p_filesToAdd pend)
                                 (validationOptions p (p_images pend)) \<rparr> \<rparr>)"

definition handleDrop_start ::
  "environment \<Rightarrow> props \<Rightarrow> page \<Rightarrow> file_obj list option \<Rightarrow> page" where
  "handleDrop_start env p pg files =
     (let pg1 = pg \<lparr> mstate := (mstate pg) \<lparr> dragOver := False \<rparr> \<rparr>
      in if isProcessing (mstate pg1)
         then pg1 \<lparr> mstate := (mstate pg1) \<lparr> toasts := toasts (mstate pg1) @ [InfoBusy] \<rparr> \<rparr>
         else handleFileSelect_start env p pg1 files)"

text \<open>
  Lines 92-157 of \<open>handleFileSelect\<close>, when the validator has settled. \<open>images\<close> is the
  array of the closure, read now (line 140: \<open>[...images, ...newImages]\<close>); when there are
  valid files the objects of \<open>newImages\<close> are new, and the host gets the combined array.
\<close>

definition handleFileSelect_finish :: "environment \<Rightarrow> page \<Rightarrow> page" where
  "handleFileSelect_finish env pg =
     (case suspended pg of
        None \<Rightarrow> pg
      | Some c \<Rightarrow>
          let stale = deref (objects pg) (c_images c);
              s1 = handleFileSelect_resume env (mstate pg)
                     \<lparr> p_images = stale, p_filesToAdd = c_filesToAdd c \<rparr> (c_outcome c);
              added = (case c_outcome c of
                         None \<Rightarrow> []
                       | Some vr \<Rightarrow> if validFiles vr = [] then [] else drop (length stale) (images s1))
          in if added = [] then pg \<lparr> mstate := s1, suspended := None \<rparr>
             else render
                    (pg \<lparr> objects := objects pg @ added,
                          imagesRef := c_images c @
                            [length (objects pg) ..< length (objects pg) + length added],
                          mstate := s1,
                          suspended := None \<rparr>))"

text \<open>
  Lines 220-226: \<open>images.map\<close> with an object literal makes a new object for every image.
\<close>

definition setFeaturedImage_shared :: "page \<Rightarrow> string \<Rightarrow> page" where
  "setFeaturedImage_shared pg imageId =
     (let s1 = setFeaturedImage (mstate pg) imageId
      in render
           (pg \<lparr> objects := objects pg @ images s1,
                 imagesRef := [length (objects pg) ..< length (objects pg) + length (images s1)],
                 mstate := s1 \<rparr>))"

text \<open>
  Lines 228-252: \<open>filter\<close> makes a new array of the same objects, and line 233 writes into
  the first of them, the object itself, whoever else refers to it.
\<close>

definition removeImage_shared :: "page \<Rightarrow> string \<Rightarrow> page" where
  "removeImage_shared pg imageId =
     (let imageToRemove = find (\<lambda>img. id_item img = imageId) (deref (objects pg) (imagesRef pg));
          remainingImages = filter (\<lambda>a. id_item (objects pg ! a) \<noteq> imageId) (imagesRef pg);
          objs = (case imageToRemove of
                    None \<Rightarrow> objects pg
                  | Some r \<Rightarrow>
                      (case remainingImages of
                         [] \<Rightarrow> objects pg
                       | a # rest \<Rightarrow>
                           if isFeatured r
                           then (objects pg) [a := (objects pg ! a) \<lparr> isFeatured := True \<rparr>]
                           else objects pg))
      in render
           (pg \<lparr> objects := objs,
                 imagesRef := remainingImages,
                 mstate := removeImage (mstate pg) imageId \<rparr>))"

text \<open>
  Lines 166-179: the callback of \<open>images.map\<close> returns a new object for the image that
  is recropped and the object it was given for any other. \<open>vs\<close> are the values of the new
  array.
\<close>

fun remap ::
  "(media_item \<Rightarrow> bool) \<Rightarrow> media_item list \<Rightarrow> addr list \<Rightarrow> media_item list
     \<Rightarrow> media_item list \<times> addr list" where
  "remap changed objs (a # as) (v # vs) =
     (if changed (objs ! a)
      then let r = remap changed (objs @ [v]) as vs in (fst r, length objs # snd r)
      else let r = remap changed objs as vs in (fst r, a # snd r))"
| "remap changed objs as vs = (objs, [])"

definition handleCropComplete_shared :: "environment \<Rightarrow> page \<Rightarrow> blob \<Rightarrow> page" where
  "handleCropComplete_shared env pg croppedBlob =
     (case imageToRecrop (mstate pg) of
        None \<Rightarrow> pg
      | Some target \<Rightarrow>
          let s1 = handleCropComplete env (mstate pg) croppedBlob;
              r = remap (\<lambda>img. id_item img = id_item target) (objects pg) (imagesRef pg) (images s1)
          in render (pg \<lparr> objects := fst r, imagesRef := snd r, mstate := s1 \<rparr>))"

subsection \<open>The events of the rendered component (lines 256-407)\<close>

text \<open>
  Each image of the list is rendered with three buttons, which call \<open>setFeaturedImage\<close>,
  \<open>handleRecropImage\<close> and \<open>removeImage\<close> on that image (lines 270-315): the buttons are
  named by the position of their image, and there is no button for a position outside the
  list. The file input and the drop zone call \<open>handleFileSelect\<close> and \<open>handleDrop\<close>; the
  cropper calls \<open>handleCropComplete\<close> and \<open>handleCropCancel\<close>. \<open>ValidatorSettles\<close> is the
  moment the promise of line 82 settles and the suspended \<open>handleFileSelect\<close> goes on.
\<close>

datatype event =
    SelectFiles "file_obj list option"
  | DropFiles "file_obj list option"
  | ValidatorSettles
  | ClickFeatured nat
  | ClickRecrop nat
  | ClickRemove nat
  | CropComplete blob
  | CropCancel
  | DragOver
  | DragLeave

definition step :: "environment \<Rightarrow> props \<Rightarrow> page \<Rightarrow> event \<Rightarrow> page" where
  "step env p pg e =
     (let imgs = images (mstate pg) in
      case e of
        SelectFiles files \<Rightarrow> handleFileSelect_start env p pg files
      | DropFiles files \<Rightarrow> handleDrop_start env p pg files
      | ValidatorSettles \<Rightarrow> handleFileSelect_finish env pg
      | ClickFeatured i \<Rightarrow>
          if i < length imgs then setFeaturedImage_shared pg (id_item (imgs ! i)) else pg
      | ClickRecrop i \<Rightarrow>
          if i < length imgs then pg \<lparr> mstate := handleRecropImage (mstate pg) (imgs ! i) \<rparr> else pg
      | ClickRemove i \<Rightarrow>
          if i < length imgs then removeImage_shared pg (id_item (imgs ! i)) else pg
      | CropComplete b \<Rightarrow> handleCropComplete_shared env pg b
      | CropCancel \<Rightarrow> pg \<lparr> mstate := handleCropCancel (mstate pg) \<rparr>
      | DragOver \<Rightarrow> pg \<lparr> mstate := (mstate pg) \<lparr> dragOver := True \<rparr> \<rparr>
      | DragLeave \<Rightarrow> pg \<lparr> mstate := (mstate pg) \<lparr> dragOver := False \<rparr> \<rparr>)"

definition run :: "environment \<Rightarrow> props \<Rightarrow> page \<Rightarrow> event list \<Rightarrow> page" where
  "run env p pg es = foldl (step env p) pg es"

text \<open>
  The same events when nothing happens while an addition is suspended: the validator
  settles before the next event, so that \<open>SelectFiles\<close> and \<open>DropFiles\<close> run
  \<open>handleFileSelect\<close> to its end and \<open>ValidatorSettles\<close> finds nothing suspended. Shared
  objects cannot be observed then, and the state of the component is enough.
\<close>

definition stepAtomic :: "environment \<Rightarrow> props \<Rightarrow> manager \<Rightarrow> event \<Rightarrow> manager" where
  "stepAtomic env p s e =
     (case e of
        SelectFiles files \<Rightarrow> handleFileSelect env p s files
      | DropFiles files \<Rightarrow> handleDrop env p s files
      | ValidatorSettles \<Rightarrow> s
      | ClickFeatured i \<Rightarrow>
          if i < length (images s) then setFeaturedImage s (id_item (images s ! i)) else s
      | ClickRecrop i \<Rightarrow>
          if i < length (images s) then handleRecropImage s (images s ! i) else s
      | ClickRemove i \<Rightarrow>
          if i < length (images s) then removeImage s (id_item (images s ! i)) else s
      | CropComplete b \<Rightarrow> handleCropComplete env s b
      | CropCancel \<Rightarrow> handleCropCancel s
      | DragOver \<Rightarrow> s \<lparr> dragOver := True \<rparr>
      | DragLeave \<Rightarrow> s \<lparr> dragOver := False \<rparr>)"

definition runAtomic :: "environment \<Rightarrow> props \<Rightarrow> manager \<Rightarrow> event list \<Rightarrow> manager" where
  "runAtomic env p s es = foldl (stepAtomic env p) s es"

text \<open>The invariant on the featured flag: one featured image, none in an empty list.\<close>

definition featuredCount :: "media_item list \<Rightarrow> nat" where
  "featuredCount imgs = length (filter isFeatured imgs)"

definition oneFeatured :: "media_item list \<Rightarrow> bool" where
  "oneFeatured imgs = (featuredCount imgs = (if imgs = [] then 0 else 1))"

section \<open>Upload pipeline (src/unnamed/part_000, lines 409-724)\<close>

subsection \<open>Data\<close>

text \<open>\<open>UploadedImage\<close> (lines 413-419); \<open>id\<close> and \<open>url\<close> are named \<open>up_id\<close> and \<open>up_url\<close>.\<close>

record uploaded_image =
  up_id :: string
  up_url :: string
  is_featured :: bool
  media_type :: media_type
  display_order :: nat

text \<open>Decimal digits of a number, as a template literal prints it.\<close>

fun show_nat :: "nat \<Rightarrow> string" where
  "show_nat n =
     (if n < 10 then [char_of (48 + n)]
      else show_nat (n div 10) @ [char_of (48 + n mod 10)])"

declare show_nat.simps [simp del]

text \<open>
  What \<open>uploadProductImages\<close> does to the outside, in order:
  \<^item> \<open>StorageUpload path\<close>: the upload of one compressed file is requested (lines 507-516);
  \<^item> \<open>ToastUploadError k message\<close>: the storage answered with an error for image \<open>k\<close>
    (lines 519-520);
  \<^item> \<open>ToastProcessError k\<close>: something threw while image \<open>k\<close> was processed (lines 540-541);
  \<^item> \<open>Progress k len\<close>: \<open>onProgress\<close> was called (line 538).
\<close>

datatype pipeline_event =
    StorageUpload string
  | ToastUploadError nat string
  | ToastProcessError nat
  | Progress nat nat

text \<open>
  The collaborators of the pipeline. \<open>compressImage\<close> (lines 429-485) is browser input and
  output on a canvas: it either rejects (\<open>None\<close>) or resolves with the re-encoded file.
  \<open>storageUpload i f\<close> is the outcome of the upload of iteration \<open>i\<close>, retries included:
  \<open>None\<close> when the call throws, \<open>Some (Some message)\<close> when the response carries an error,
  \<open>Some None\<close> when the file is stored. \<open>dateNow k\<close> is the \<open>k\<close>-th reading of
  \<open>Date.now()\<close>, \<open>randomSuffix i\<close> the random part of the file name of iteration \<open>i\<close>.
  \<open>onProgress\<close> is the optional callback; it tells whether it returned (\<open>True\<close>) or threw.
\<close>

record upload_env =
  compressImage :: "file_obj \<Rightarrow> file_obj option"
  storageUpload :: "nat \<Rightarrow> file_obj \<Rightarrow> string option option"
  getPublicUrl :: "string \<Rightarrow> string"
  dateNow :: "nat \<Rightarrow> nat"
  randomSuffix :: "nat \<Rightarrow> string"
  onProgress :: "(nat \<Rightarrow> nat \<Rightarrow> bool) option"

record upload_state =
  uploadedImages :: "uploaded_image list"
  events :: "pipeline_event list"
  clock :: nat

subsection \<open>\<open>uploadProductImages\<close> (lines 487-550)\<close>

text \<open>How the body of the inner \<open>try\<close> ends: normally, by \<open>continue\<close>, or by a throw.\<close>

datatype flow = Normal | Continue | Thrown

text \<open>Lines 502-538, the body of the inner \<open>try\<close> for the file at position \<open>i\<close>.\<close>

definition uploadTry ::
  "upload_env \<Rightarrow> string \<Rightarrow> string \<Rightarrow> nat \<Rightarrow> nat \<Rightarrow> file_obj \<Rightarrow> upload_state
     \<Rightarrow> upload_state \<times> flow" where
  "uploadTry env userId productId len i f st =
     (case compressImage env f of
        None \<Rightarrow> (st, Thrown)
      | Some compressedFile \<Rightarrow>
          let fileName = ''product-'' @ productId @ ''-'' @ show_nat (dateNow env (clock st))
                           @ ''-'' @ randomSuffix env i @ ''.jpg'';
              filePath = ''product/'' @ userId @ ''/'' @ fileName;
              st1 = st \<lparr> clock := Suc (clock st), events := events st @ [StorageUpload filePath] \<rparr>
          in case storageUpload env i compressedFile of
               None \<Rightarrow> (st1, Thrown)
             | Some (Some message) \<Rightarrow>
                 (st1 \<lparr> events := events st1 @ [ToastUploadError (i + 1) message] \<rparr>, Continue)
             | Some None \<Rightarrow>
                 let publicUrl = getPublicUrl env filePath;
                     uploadedImage =
                       \<lparr> up_id = ''new-'' @ show_nat (dateNow env (clock st1)) @ ''-'' @ show_nat i,
                         up_url = publicUrl,
                         is_featured = (i = 0),
                         media_type = Image,
                         display_order = i \<rparr>;
                     st2 = st1 \<lparr> clock := Suc (clock st1),
                                uploadedImages := uploadedImages st1 @ [uploadedImage] \<rparr>
                 in case onProgress env of
                      None \<Rightarrow> (st2, Normal)
                    | Some callback \<Rightarrow>
                        (st2 \<lparr> events := events st2 @ [Progress (i + 1) len] \<rparr>,
                         if callback (i + 1) len then Normal else Thrown))"

text \<open>One iteration of the loop: the inner \<open>try\<close> with its \<open>catch\<close> (lines 539-542).\<close>

definition uploadOne ::
  "upload_env \<Rightarrow> string \<Rightarrow> string \<Rightarrow> nat \<Rightarrow> nat \<Rightarrow> file_obj \<Rightarrow> upload_state \<Rightarrow> upload_state" where
  "uploadOne env userId productId len i f st =
     (case uploadTry env userId productId len i f st of
        (st1, Thrown) \<Rightarrow> st1 \<lparr> events := events st1 @ [ToastProcessError (i + 1)] \<rparr>
      | (st1, _) \<Rightarrow> st1)"

text \<open>The \<open>for\<close> loop of line 498, from position \<open>i\<close> on.\<close>

fun uploadLoop ::
  "upload_env \<Rightarrow> string \<Rightarrow> string \<Rightarrow> nat \<Rightarrow> nat \<Rightarrow> file_obj list \<Rightarrow> upload_state \<Rightarrow> upload_state" where
  "uploadLoop env userId productId len i [] st = st"
| "uploadLoop env userId productId len i (f # fs) st =
     uploadLoop env userId productId len (Suc i) fs (uploadOne env userId productId len i f st)"

text \<open>
  The function returns the records and never throws: every statement of the loop is inside
  the inner \<open>try\<close>, so the rethrowing \<open>catch\<close> of lines 546-549 is not reached. The second
  component is the trace of effects.
\<close>

definition uploadProductImages ::
  "upload_env \<Rightarrow> file_obj list \<Rightarrow> string \<Rightarrow> string \<Rightarrow> uploaded_image list \<times> pipeline_event list" where
  "uploadProductImages env files userId productId =
     (if files = [] then ([], [])
      else
        let st = uploadLoop env userId productId (length files) 0 files
                   \<lparr> uploadedImages = [], events = [], clock = 0 \<rparr>
        in (uploadedImages st, events st))"

text \<open>The file at position \<open>i\<close> is stored: it was compressed and its upload succeeded.\<close>

definition stored :: "upload_env \<Rightarrow> nat \<Rightarrow> file_obj \<Rightarrow> bool" where
  "stored env i f =
     (case compressImage env f of
        None \<Rightarrow> False
      | Some compressedFile \<Rightarrow> storageUpload env i compressedFile = Some None)"

text \<open>The image number of an error notification.\<close>

definition errorIndex :: "pipeline_event \<Rightarrow> nat option" where
  "errorIndex e =
     (case e of
        ToastUploadError k message \<Rightarrow> Some k
      | ToastProcessError k \<Rightarrow> Some k
      | _ \<Rightarrow> None)"

definition reportedErrors :: "pipeline_event list \<Rightarrow> nat list" where
  "reportedErrors es = List.map_filter errorIndex es"

text \<open>The progress callback throws when called for image number \<open>k\<close> of \<open>len\<close>.\<close>

definition progressThrows :: "upload_env \<Rightarrow> nat \<Rightarrow> nat \<Rightarrow> bool" where
  "progressThrows env len k =
     (case onProgress env of None \<Rightarrow> False | Some callback \<Rightarrow> \<not> callback k len)"

text \<open>Processing the file at position \<open>i\<close> fails somewhere.\<close>

definition failed :: "upload_env \<Rightarrow> nat \<Rightarrow> nat \<Rightarrow> file_obj \<Rightarrow> bool" where
  "failed env len i f = (\<not> stored env i f \<or> progressThrows env len (i + 1))"

text \<open>
  The invariant of \<open>UploadedImage\<close> lists that C2 asks for: the display orders are
  \<open>0, 1, 2, \<dots>\<close>, and a non-empty list has one featured record, the one of display order 0.
\<close>

definition denseOrder :: "uploaded_image list \<Rightarrow> bool" where
  "denseOrder imgs = (map display_order imgs = [0 ..< length imgs])"

definition featuredFirst :: "uploaded_image list \<Rightarrow> bool" where
  "featuredFirst imgs =
     (imgs = [] \<or> map display_order (filter is_featured imgs) = [0])"

subsection \<open>Deleting images (lines 585-606 and 696-724)\<close>

text \<open>
  \<open>s.split(sep)\<close> for a non-empty separator \<open>c # sep\<close>: the pieces between the
  occurrences of the separator, found from left to right. \<open>cur\<close> is the piece being read.
\<close>

function splitAcc :: "char \<Rightarrow> string \<Rightarrow> string \<Rightarrow> string \<Rightarrow> string list" where
  "splitAcc c sep cur [] = [cur]"
| "splitAcc c sep cur (x # xs) =
     (if prefix (c # sep) (x # xs)
      then cur # splitAcc c sep [] (drop (length sep) xs)
      else splitAcc c sep (cur @ [x]) xs)"
  by pat_completeness auto
termination
  by (relation "measure (\<lambda>(c, sep, cur, s). length s)") auto

text \<open>\<open>pathname.split('/public/')[1]\<close> (line 588); \<open>None\<close> is \<open>undefined\<close>.\<close>

definition storagePath :: "string \<Rightarrow> string option" where
  "storagePath pathname =
     (case splitAcc CHR ''/'' ''public/'' [] pathname of
        a # b # rest \<Rightarrow> Some b
      | _ \<Rightarrow> None)"

text \<open>
  The effects of the deletion functions, in order:
  \<^item> \<open>StorageRemove path\<close>: removal of the object at \<open>path\<close> is requested (lines 591-601);
  \<^item> \<open>LogStorageError\<close>: \<open>console.error('Error deleting image from storage:', ...)\<close>
    (lines 604, 709);
  \<^item> \<open>DbSelectUrls ids\<close>: the rows of \<open>ids\<close> are read (lines 698-705);
  \<^item> \<open>DbDeleteRows ids\<close>: deletion of the rows of \<open>ids\<close> is requested (lines 715-718);
  \<^item> \<open>LogDeleteError\<close>: \<open>console.error('Error in deleteProductImages:', ...)\<close> (line 722).
\<close>

datatype delete_event =
    StorageRemove string
  | LogStorageError
  | DbSelectUrls "string list"
  | DbDeleteRows "string list"
  | LogDeleteError

text \<open>A promise settles: it resolves, or it rejects with an error.\<close>

datatype settled = Resolved | Rejected

text \<open>
  The collaborators of the deletion: \<open>urlPathname u\<close> is \<open>new URL(u).pathname\<close> (\<open>None\<close>:
  the constructor throws); \<open>storageRemove path\<close> tells whether the removal, retries
  included, succeeded; \<open>dbSelectUrls ids\<close> is the \<open>url\<close> column of the rows read (\<open>None\<close>:
  the query failed); \<open>dbDeleteRows ids\<close> tells whether the deletion of the rows succeeded.
\<close>

record delete_env =
  urlPathname :: "string \<Rightarrow> string option"
  storageRemove :: "string \<Rightarrow> bool"
  dbSelectUrls :: "string list \<Rightarrow> string list option"
  dbDeleteRows :: "string list \<Rightarrow> bool"

text \<open>Lines 587-602, the body of the \<open>try\<close> of \<open>deleteProductImage\<close>.\<close>

definition deleteProductImage_try :: "delete_env \<Rightarrow> string \<Rightarrow> delete_event list \<times> settled" where
  "deleteProductImage_try env imageUrl =
     (case urlPathname env imageUrl of
        None \<Rightarrow> ([], Rejected)
      | Some pathname \<Rightarrow>
          (case storagePath pathname of
             None \<Rightarrow> ([], Resolved)
           | Some path \<Rightarrow>
               if path = [] then ([], Resolved)
               else if storageRemove env path then ([StorageRemove path], Resolved)
               else ([StorageRemove path], Rejected)))"

text \<open>Lines 585-606: the \<open>catch\<close> logs and the function returns.\<close>

definition deleteProductImage :: "delete_env \<Rightarrow> string \<Rightarrow> delete_event list \<times> settled" where
  "deleteProductImage env imageUrl =
     (case deleteProductImage_try env imageUrl of
        (es, Rejected) \<Rightarrow> (es @ [LogStorageError], Resolved)
      | (es, Resolved) \<Rightarrow> (es, Resolved))"

text \<open>
  Lines 707-713: every record is handed to \<open>deleteProductImage\<close>, with a \<open>catch\<close> of its own
  that logs, and all the promises are awaited. The calls are taken here one after the
  other, in the order of the records.
\<close>

fun deleteAll :: "delete_env \<Rightarrow> string list \<Rightarrow> delete_event list" where
  "deleteAll env [] = []"
| "deleteAll env (u # us) =
     (case deleteProductImage env u of
        (es, Rejected) \<Rightarrow> es @ [LogStorageError]
      | (es, Resolved) \<Rightarrow> es) @ deleteAll env us"

text \<open>Lines 698-720, the body of the \<open>try\<close> of \<open>deleteProductImages\<close>.\<close>

definition deleteProductImages_try ::
  "delete_env \<Rightarrow> string list \<Rightarrow> string \<Rightarrow> delete_event list \<times> settled" where
  "deleteProductImages_try env imageIds userId =
     (case dbSelectUrls env imageIds of
        None \<Rightarrow> ([DbSelectUrls imageIds], Rejected)
      | Some imageRecords \<Rightarrow>
          (DbSelectUrls imageIds # deleteAll env imageRecords @ [DbDeleteRows imageIds],
           if dbDeleteRows env imageIds then Resolved else Rejected))"

text \<open>Lines 696-724.\<close>

definition deleteProductImages ::
  "delete_env \<Rightarrow> string list \<Rightarrow> string \<Rightarrow> delete_event list \<times> settled" where
  "deleteProductImages env imageIds userId =
     (case deleteProductImages_try env imageIds userId of
        (es, Rejected) \<Rightarrow> (es @ [LogDeleteError], Resolved)
      | (es, Resolved) \<Rightarrow> (es, Resolved))"

text \<open>An event that touches the object storage.\<close>

definition isStorageRemove :: "delete_event \<Rightarrow> bool" where
  "isStorageRemove e = (case e of StorageRemove path \<Rightarrow> True | _ \<Rightarrow> False)"

subsection \<open>Well-formed states\<close>

text \<open>
  The identifiers \<open>uuidv4\<close> hands out are taken to be unique: the function never returns
  the same string twice, and no identifier it will return from now on names an image of
  the list already.
\<close>

definition freshIds :: "environment \<Rightarrow> manager \<Rightarrow> bool" where
  "freshIds env s =
     (inj (uuidv4 env) \<and>
      (\<forall>n\<ge>uuidCount s. ''new-'' @ uuidv4 env n \<notin> id_item ` set (images s)))"

text \<open>
  A valid state: the images have pairwise distinct ids, the featured flag satisfies its
  invariant, and the ids still to come are fresh.
\<close>

definition validState :: "environment \<Rightarrow> manager \<Rightarrow> bool" where
  "validState env s =
     (distinct (map id_item (images s)) \<and> oneFeatured (images s) \<and> freshIds env s)"


section \<open>Concrete inputs\<close>

text \<open>
  A small environment: identifiers \<open>u\<close>, \<open>uu\<close>, \<dots>, object URLs \<open>blob:b\<close>, \<open>blob:bb\<close>,
  \<dots>, and a validator that accepts the files of an allowed type.
\<close>

definition exampleEnv :: environment where
  "exampleEnv =
     \<lparr> uuidv4 = (\<lambda>n. replicate (Suc n) CHR ''u''),
       createObjectURL = (\<lambda>n. ''blob:'' @ replicate (Suc n) CHR ''b''),
       validateFilesWithMultiLayerValidation =
         (\<lambda>fs opts. Some \<lparr> validFiles = filter (\<lambda>f. file_type f \<in> set (allowedTypes opts)) fs,
                             invalid = map (\<lambda>f. (file_name f, ''type''))
                                         (filter (\<lambda>f. file_type f \<notin> set (allowedTypes opts)) fs),
                             duplicates = [],
                             hashes = Map.empty,
                             fingerprints = Map.empty,
                             blobUrls = Map.empty \<rparr>) \<rparr>"

definition exampleProps :: props where
  "exampleProps = \<lparr> maxImages = 2, maxFileSize = 5 \<rparr>"

text \<open>The props when the host gives none (lines 32-33).\<close>

definition defaultProps :: props where
  "defaultProps = \<lparr> maxImages = 10, maxFileSize = 5 \<rparr>"

definition emptyManager :: manager where
  "emptyManager =
     \<lparr> images = [], dragOver = False, showCropper = False, imageToRecrop = None,
       isProcessing = False, processingQueueRef = False, fileReferencesRef = [],
       toasts = [], revokedObjectURLs = [], createdObjectURLs = 0, uuidCount = 0,
       registryCalls = [] \<rparr>"

definition exampleFile :: "string \<Rightarrow> file_obj" where
  "exampleFile n = \<lparr> file_name = n, file_type = ''image/png'', file_data = ''data'' \<rparr>"

definition exampleItem :: "string \<Rightarrow> bool \<Rightarrow> media_item" where
  "exampleItem n f =
     \<lparr> id_item = n, url = ''blob:'' @ n, file_item = Some (exampleFile n), isFeatured = f,
       mediaType = Image, fileHash = None, visualFingerprint = None, blobUrl = None \<rparr>"

text \<open>Two images held by the manager, the first one featured.\<close>

definition twoImages :: manager where
  "twoImages = emptyManager \<lparr> images := [exampleItem ''x'' True, exampleItem ''y'' False],
                             fileReferencesRef := [(''x'', exampleFile ''x'', ''blob:x''),
                                                   (''y'', exampleFile ''y'', ''blob:y'')] \<rparr>"

text \<open>
  An upload environment in which everything succeeds but the upload at position \<open>bad\<close>,
  which the storage answers with an error.
\<close>

definition exampleUploadEnv :: "nat \<Rightarrow> upload_env" where
  "exampleUploadEnv bad =
     \<lparr> compressImage = (\<lambda>f. Some (f \<lparr> file_type := ''image/jpeg'' \<rparr>)),
       storageUpload = (\<lambda>i f. if i = bad then Some (Some ''storage error'') else Some None),
       getPublicUrl = (\<lambda>path. ''https://cdn/'' @ path),
       dateNow = (\<lambda>k. 1000 + k),
       randomSuffix = (\<lambda>i. ''r''),
       onProgress = None \<rparr>"

text \<open>
  A deletion environment: the record \<open>bad\<close> has no valid URL, and the storage refuses to
  remove \<open>product/u/gone.jpg\<close>.
\<close>

definition exampleDeleteEnv :: delete_env where
  "exampleDeleteEnv =
     \<lparr> urlPathname = (\<lambda>u. if u = ''bad'' then None else Some u),
       storageRemove = (\<lambda>path. path \<noteq> ''product/u/gone.jpg''),
       dbSelectUrls = (\<lambda>ids. Some [''/storage/v1/object/public/product/u/gone.jpg'',
                                     ''bad'',
                                     ''/storage/v1/object/public/product/u/b.jpg'']),
       dbDeleteRows = (\<lambda>ids. True) \<rparr>"

section \<open>Properties of the pricing presenter\<close>

subsection \<open>Rounding to a double\<close>

lemma bitlength_bounds: "0 < n \<Longrightarrow> 2 ^ (bitlength n - 1) \<le> n \<and> n < 2 ^ bitlength n"
proof (induction n rule: bitlength.induct)
  case (1 n)
  show ?case
  proof (cases "n div 2 \<le> 0")
    case True
    with "1.prems" have "n = 1" by presburger
    then show ?thesis by (simp add: bitlength.simps)
  next
    case False
    then have pos: "0 < n div 2" by simp
    from "1.IH" [OF _ pos] "1.prems"
    have ih: "2 ^ (bitlength (n div 2) - 1) \<le> n div 2" "n div 2 < 2 ^ bitlength (n div 2)"
      by simp_all
    have bl: "bitlength n = Suc (bitlength (n div 2))"
      using "1.prems" by (subst bitlength.simps) simp
    have bpos: "0 < bitlength (n div 2)"
      using pos by (subst bitlength.simps) simp
    have "2 * 2 ^ (bitlength (n div 2) - 1) \<le> 2 * (n div 2)" using ih(1) by simp
    also have "\<dots> \<le> n" by presburger
    finally have lo: "2 ^ bitlength (n div 2) \<le> n"
      using bpos by (cases "bitlength (n div 2)") simp_all
    have "n < 2 * (n div 2) + 2" by presburger
    also have "\<dots> \<le> 2 * 2 ^ bitlength (n div 2)" using ih(2) by simp
    finally have hi: "n < 2 ^ Suc (bitlength (n div 2))" by simp
    show ?thesis using lo hi by (simp add: bl)
  qed
qed

lemma bitlength_unique:
  assumes "2 ^ k \<le> n" and "n < 2 ^ Suc k"
  shows "bitlength n = Suc k"
proof -
  have "(0::int) < 2 ^ k" by simp
  with assms(1) have pos: "0 < n" by linarith
  from bitlength_bounds [OF pos]
  have b: "2 ^ (bitlength n - 1) \<le> n" "n < 2 ^ bitlength n" by simp_all
  have "(2::int) ^ k < 2 ^ bitlength n" using assms(1) b(2) by (rule le_less_trans)
  then have 1: "k < bitlength n"
    using power_strict_increasing_iff [of "2::int" k "bitlength n"] by simp
  have "(2::int) ^ (bitlength n - 1) < 2 ^ Suc k" using b(1) assms(2) by (rule le_less_trans)
  then have 2: "bitlength n - 1 < Suc k"
    using power_strict_increasing_iff [of "2::int" "bitlength n - 1" "Suc k"] by simp
  from 1 2 show ?thesis by simp
qed

lemma pow2_pos: "0 < pow2 e"
  by (simp add: pow2_def)

lemma floorLog2_unique:
  assumes lo: "pow2 k \<le> x" and hi: "x < pow2 (k + 1)"
  shows "floorLog2 x = k"
proof (cases "0 \<le> k")
  case True
  define j where "j = nat k"
  have k: "k = int j" using True by (simp add: j_def)
  have p1: "pow2 k = of_int (2 ^ j)" by (simp add: pow2_def k)
  have p2: "pow2 (k + 1) = of_int (2 ^ Suc j)" by (simp add: pow2_def k nat_add_distrib)
  have a: "(2::int) ^ j \<le> \<lfloor>x\<rfloor>" using lo unfolding p1 by (simp add: le_floor_iff)
  have b: "\<lfloor>x\<rfloor> < (2::int) ^ Suc j" using hi unfolding p2 by (simp add: floor_less_iff)
  have one: "1 \<le> x"
  proof -
    have "(1::rat) \<le> 2 ^ j" by (rule one_le_power) simp
    moreover have "(2::rat) ^ j \<le> x" using lo p1 by simp
    ultimately show ?thesis by (rule order_trans)
  qed
  have "bitlength \<lfloor>x\<rfloor> = Suc j" using a b by (rule bitlength_unique)
  then show ?thesis using one by (simp add: floorLog2_def k)
next
  case False
  define j where "j = nat (- k) - 1"
  have k: "k = - int (Suc j)" using False by (simp add: j_def)
  have nk: "nat (- k) = Suc j" using k by simp
  have kneg: "\<not> 0 \<le> k" using k by simp
  have p1: "pow2 k = 1 / 2 ^ Suc j" unfolding pow2_def using nk kneg by simp
  have p2: "pow2 (k + 1) = 1 / 2 ^ j"
  proof (cases j)
    case 0
    then have "k + 1 = 0" using k by simp
    then show ?thesis using 0 by (simp add: pow2_def)
  next
    case (Suc i)
    then have "\<not> 0 \<le> k + 1" and "nat (- (k + 1)) = j" using k by simp_all
    then show ?thesis unfolding pow2_def by simp
  qed
  have xpos: "0 < x" using lo pow2_pos [of k] by linarith
  have lt1: "x < 1"
  proof -
    have "(1::rat) \<le> 2 ^ j" by (rule one_le_power) simp
    then have "(1::rat) / 2 ^ j \<le> 1" by (simp add: divide_le_eq_1)
    moreover have "x < 1 / 2 ^ j" using hi p2 by simp
    ultimately show ?thesis by (rule less_le_trans [rotated])
  qed
  have u: "1 / x \<le> 2 ^ Suc j"
    using lo xpos unfolding p1 by (simp add: field_simps)
  have l: "2 ^ j < 1 / x"
    using hi xpos unfolding p2 by (simp add: field_simps)
  have cu: "\<lceil>1 / x\<rceil> \<le> 2 ^ Suc j"
    using u by (simp add: ceiling_le_iff)
  have cl: "2 ^ j < \<lceil>1 / x\<rceil>"
    using l by (simp add: less_ceiling_iff)
  have a: "(2::int) ^ j \<le> \<lceil>1 / x\<rceil> - 1" using cl by simp
  have b: "\<lceil>1 / x\<rceil> - 1 < (2::int) ^ Suc j" using cu by simp
  have "bitlength (\<lceil>1 / x\<rceil> - 1) = Suc j" using a b by (rule bitlength_unique)
  then show ?thesis using lt1 by (simp add: floorLog2_def k)
qed

lemma roundHalfEven_unique:
  assumes "\<bar>y - of_int m\<bar> < 1 / 2"
  shows "roundHalfEven y = m"
proof -
  from assms have lo: "of_int m - 1 / 2 < y" and hi: "y < of_int m + 1 / 2"
    by linarith+
  have "\<lfloor>y\<rfloor> = m \<or> \<lfloor>y\<rfloor> = m - 1"
  proof -
    have "of_int (m - 1) \<le> y" using lo by simp
    then have 1: "m - 1 \<le> \<lfloor>y\<rfloor>" by (simp add: le_floor_iff)
    have "y < of_int (m + 1)" using hi by simp
    then have 2: "\<lfloor>y\<rfloor> < m + 1" by (simp only: floor_less_iff)
    from 1 2 show ?thesis by linarith
  qed
  then show ?thesis
  proof
    assume f: "\<lfloor>y\<rfloor> = m"
    then have "y - of_int \<lfloor>y\<rfloor> < 1 / 2" using hi by simp
    then show ?thesis by (simp add: roundHalfEven_def Let_def f)
  next
    assume f: "\<lfloor>y\<rfloor> = m - 1"
    then have "1 / 2 < y - of_int \<lfloor>y\<rfloor>" using lo by simp
    then show ?thesis by (simp add: roundHalfEven_def Let_def f)
  qed
qed

lemma toDouble_nearest:
  assumes lo: "pow2 (e + 52) \<le> \<bar>x\<bar>" and hi: "\<bar>x\<bar> < pow2 (e + 53)"
    and e: "- 1074 \<le> e"
    and near: "\<bar>\<bar>x\<bar> / pow2 e - of_int m\<bar> < 1 / 2"
    and fin: "of_int m * pow2 e < pow2 1024"
  shows "toDouble x = Finite (if 0 < x then of_int m * pow2 e else - (of_int m * pow2 e))"
proof -
  define a where "a = \<bar>x\<bar>"
  have x0: "x \<noteq> 0" using lo pow2_pos [of "e + 52"] by auto
  have "floorLog2 a = e + 52"
    unfolding a_def using lo hi by (intro floorLog2_unique) (simp_all add: add.commute add.left_commute)
  then have ex: "max (floorLog2 a - 52) (- 1074) = e" using e by simp
  have r: "roundHalfEven (a / pow2 e) = m" unfolding a_def using near by (rule roundHalfEven_unique)
  have "toDouble x =
      (if pow2 1024 \<le> of_int m * pow2 e then (if 0 < x then PosInfinity else NegInfinity)
       else Finite (if 0 < x then of_int m * pow2 e else - (of_int m * pow2 e)))"
    unfolding toDouble_def Let_def a_def [symmetric] ex r using x0 by simp
  then show ?thesis
    using fin by simp
qed

text \<open>
  Evaluating the floor of a quotient of numerals, and the savings percentage from the
  three rounded results it is made of.
\<close>

lemma floor_rat_numeral: "\<lfloor>(numeral a :: rat) / numeral b\<rfloor> = numeral a div numeral b"
  using floor_divide_of_int_eq [of "numeral a" "numeral b", where ?'a = rat] by simp

lemma calculateSavingsPercentage_steps:
  assumes "0 < originalPrice"
    and "toDouble (originalPrice - newPrice) = Finite a"
    and "toDouble (a / originalPrice) = Finite b"
    and "toDouble (b * 100) = Finite c"
  shows "calculateSavingsPercentage originalPrice newPrice = Finite (of_int \<lfloor>c + 1 / 2\<rfloor>)"
  using assms
  by (simp add: calculateSavingsPercentage_def divDouble_def timesDouble_def mathRound_def)

lemma savings_10_9: "calculateSavingsPercentage 10 (9) = Finite 10"
proof -
  have a: "toDouble (10 - 9) = Finite (1)"
    using toDouble_nearest [of "- 52" "10 - 9" 4503599627370496]
    by (simp add: pow2_def)
  have b: "toDouble (1 / 10) = Finite (3602879701896397 / 36028797018963968)"
    using toDouble_nearest [of "- 56" "1 / 10" 7205759403792794]
    by (simp add: pow2_def)
  have c: "toDouble (3602879701896397 / 36028797018963968 * 100) = Finite (10)"
    using toDouble_nearest [of "- 49" "3602879701896397 / 36028797018963968 * 100" 5629499534213120]
    by (simp add: pow2_def)
  have "(0::rat) < 10" by simp
  from calculateSavingsPercentage_steps [OF this a b c] show ?thesis
    by (simp add: floor_rat_numeral)
qed

lemma savings_10_7: "calculateSavingsPercentage 10 (7) = Finite 30"
proof -
  have a: "toDouble (10 - 7) = Finite (3)"
    using toDouble_nearest [of "- 51" "10 - 7" 6755399441055744]
    by (simp add: pow2_def)
  have b: "toDouble (3 / 10) = Finite (5404319552844595 / 18014398509481984)"
    using toDouble_nearest [of "- 54" "3 / 10" 5404319552844595]
    by (simp add: pow2_def)
  have c: "toDouble (5404319552844595 / 18014398509481984 * 100) = Finite (30)"
    using toDouble_nearest [of "- 48" "5404319552844595 / 18014398509481984 * 100" 8444249301319680]
    by (simp add: pow2_def)
  have "(0::rat) < 10" by simp
  from calculateSavingsPercentage_steps [OF this a b c] show ?thesis
    by (simp add: floor_rat_numeral)
qed

lemma savings_10_19_2: "calculateSavingsPercentage 10 (19 / 2) = Finite 5"
proof -
  have a: "toDouble (10 - 19 / 2) = Finite (1 / 2)"
    using toDouble_nearest [of "- 53" "10 - 19 / 2" 4503599627370496]
    by (simp add: pow2_def)
  have b: "toDouble (1 / 2 / 10) = Finite (3602879701896397 / 72057594037927936)"
    using toDouble_nearest [of "- 57" "1 / 2 / 10" 7205759403792794]
    by (simp add: pow2_def)
  have c: "toDouble (3602879701896397 / 72057594037927936 * 100) = Finite (5)"
    using toDouble_nearest [of "- 50" "3602879701896397 / 72057594037927936 * 100" 5629499534213120]
    by (simp add: pow2_def)
  have "(0::rat) < 10" by simp
  from calculateSavingsPercentage_steps [OF this a b c] show ?thesis
    by (simp add: floor_rat_numeral)
qed

lemma savings_10_17_4: "calculateSavingsPercentage 10 (17 / 4) = Finite 57"
proof -
  have a: "toDouble (10 - 17 / 4) = Finite (23 / 4)"
    using toDouble_nearest [of "- 50" "10 - 17 / 4" 6473924464345088]
    by (simp add: pow2_def)
  have b: "toDouble (23 / 4 / 10) = Finite (2589569785738035 / 4503599627370496)"
    using toDouble_nearest [of "- 53" "23 / 4 / 10" 5179139571476070]
    by (simp add: pow2_def)
  have c: "toDouble (2589569785738035 / 4503599627370496 * 100) = Finite (8092405580431359 / 140737488355328)"
    using toDouble_nearest [of "- 47" "2589569785738035 / 4503599627370496 * 100" 8092405580431359]
    by (simp add: pow2_def)
  have "(0::rat) < 10" by simp
  from calculateSavingsPercentage_steps [OF this a b c] show ?thesis
    by (simp add: floor_rat_numeral)
qed


subsection \<open>The table\<close>

lemma sortedTiers_sorted: "sorted (map min_quantity (sortedTiers tiers))"
  by (simp add: sortedTiers_def)

lemma sortedTiers_mset: "mset (sortedTiers tiers) = mset tiers"
  by (simp add: sortedTiers_def)

lemma row_tier_tierRows: "map row_tier (tierRows tiers b d) = sortedTiers tiers"
  by (simp add: tierRows_def tierRow_def Let_def comp_def)

lemma exampleTiers_sorted:
  "map min_quantity (sortedTiers exampleTiers) = [5, 10, 50]"
  by (simp add: sortedTiers_def exampleTiers_def)

lemma exampleTiers_rows:
  "baseUnitPrice basePrice baseDiscountedPrice = 10 \<Longrightarrow>
     map (\<lambda>r. (min_quantity (row_tier r), savingsPercentage r))
       (tierRows exampleTiers basePrice baseDiscountedPrice)
       = [(5, Finite 5), (10, Finite 10), (50, Finite 30)]"
  by (simp add: tierRows_def tierRow_def sortedTiers_def exampleTiers_def effectivePrice_def
      truthy_def Let_def savings_10_9 savings_10_7 savings_10_19_2)

text \<open>
  C7, as stated, fails in two ways. The guard of \<open>calculateSavingsPercentage\<close> (line 27)
  gives \<open>0\<close> for a base unit price that is not positive: with a base price of \<open>-10\<close> and
  a tier at unit price \<open>9\<close> the formula \<open>round ((base - effective) / base * 100)\<close> is
  \<open>190\<close>. And the formula is evaluated in doubles: with a base price of \<open>10\<close> and a tier at
  unit price \<open>4.25\<close> the quotient \<open>5.75 / 10\<close> is rounded to a double just below \<open>0.575\<close>,
  its product with \<open>100\<close> to one just below \<open>57.5\<close>, and the presenter reports \<open>57\<close> where
  the formula gives \<open>58\<close>.
\<close>

theorem savings_formula_counterexample:
  "map savingsPercentage
     (tierRows [\<lparr> tier_id = ''t'', min_quantity = 5, unit_price = 9,
                  discounted_unit_price = None \<rparr>] (- 10) None) = [Finite 0]
   \<and> round (((- 10 - 9) / (- 10 :: rat)) * 100) = (190 :: int)
   \<and> map savingsPercentage
     (tierRows [\<lparr> tier_id = ''t'', min_quantity = 5, unit_price = 17 / 4,
                  discounted_unit_price = None \<rparr>] 10 None) = [Finite 57]
   \<and> round (((10 - 17 / 4) / (10 :: rat)) * 100) = (58 :: int)"
proof -
  have a: "map savingsPercentage
     (tierRows [\<lparr> tier_id = ''t'', min_quantity = 5, unit_price = 9,
                  discounted_unit_price = None \<rparr>] (- 10) None) = [Finite 0]"
    by (simp add: tierRows_def tierRow_def sortedTiers_def baseUnitPrice_def
        truthy_def effectivePrice_def calculateSavingsPercentage_def Let_def)
  have b: "round (((- 10 - 9) / (- 10 :: rat)) * 100) = (190 :: int)"
    by simp
  have c: "map savingsPercentage
     (tierRows [\<lparr> tier_id = ''t'', min_quantity = 5, unit_price = 17 / 4,
                  discounted_unit_price = None \<rparr>] 10 None) = [Finite 57]"
    by (simp add: tierRows_def tierRow_def sortedTiers_def baseUnitPrice_def
        truthy_def effectivePrice_def Let_def savings_10_17_4)
  have "round (((10 - 17 / 4) / (10 :: rat)) * 100) = \<lfloor>(116 :: rat) / 2\<rfloor>"
    by (simp add: round_def)
  then have d: "round (((10 - 17 / 4) / (10 :: rat)) * 100) = (58 :: int)"
    by (simp add: floor_rat_numeral)
  show ?thesis using a b c d by blast
qed

text \<open>
  C7 (amended): for every tier list the presenter's rows are the tiers in ascending order of
  minimum quantity (a stable sort of the input, so a permutation of it). The base unit price
  is the base discounted price if there is one and it is not zero, and the base price
  otherwise. Each row's savings percentage is \<open>0\<close> when the base unit price is zero or
  negative; otherwise it is \<open>Math.round\<close> of \<open>((base - effective) / base) * 100\<close> with the
  difference, the quotient and the product each rounded to the nearest double. For the
  tiers of the example with base price 10 and no base discounted price the order is 5, 10,
  50 and the saving of the tier at 50 is 30.
\<close>

theorem tierRows_sorted_savings:
  "map row_tier (tierRows tiers basePrice baseDiscountedPrice) = sort_key min_quantity tiers
   \<and> sorted (map min_quantity (map row_tier (tierRows tiers basePrice baseDiscountedPrice)))
   \<and> mset (map row_tier (tierRows tiers basePrice baseDiscountedPrice)) = mset tiers
   \<and> baseUnitPrice basePrice baseDiscountedPrice =
       (case baseDiscountedPrice of
          None \<Rightarrow> basePrice
        | Some d \<Rightarrow> if d = 0 then basePrice else d)
   \<and> map savingsPercentage (tierRows tiers basePrice baseDiscountedPrice) =
       map (\<lambda>t. if 0 < (case baseDiscountedPrice of
                           None \<Rightarrow> basePrice
                         | Some d \<Rightarrow> if d = 0 then basePrice else d)
                then mathRound
                       (timesDouble
                          (divDouble
                             (toDouble
                                ((case baseDiscountedPrice of
                                    None \<Rightarrow> basePrice
                                  | Some d \<Rightarrow> if d = 0 then basePrice else d)
                                 - effectivePrice t))
                             (case baseDiscountedPrice of
                                None \<Rightarrow> basePrice
                              | Some d \<Rightarrow> if d = 0 then basePrice else d))
                          100)
                else Finite 0)
           (sort_key min_quantity tiers)
   \<and> TieredPricingTable tiers basePrice baseDiscountedPrice =
       (if tiers = [] then None else Some (tierRows tiers basePrice baseDiscountedPrice))
   \<and> map (\<lambda>r. (min_quantity (row_tier r), savingsPercentage r)) (tierRows exampleTiers 10 None)
       = [(5, Finite 5), (10, Finite 10), (50, Finite 30)]"
proof -
  define base where "base = (case baseDiscountedPrice of
          None \<Rightarrow> basePrice
        | Some d \<Rightarrow> if d = 0 then basePrice else d)"
  have bu: "baseUnitPrice basePrice baseDiscountedPrice = base"
    by (simp add: baseUnitPrice_def truthy_def base_def split: option.splits)
  have rows: "map row_tier (tierRows tiers basePrice baseDiscountedPrice) = sort_key min_quantity tiers"
    using row_tier_tierRows [of tiers basePrice baseDiscountedPrice]
    by (simp add: sortedTiers_def)
  have sav: "map savingsPercentage (tierRows tiers basePrice baseDiscountedPrice) =
       map (\<lambda>t. if 0 < base
                then mathRound (timesDouble (divDouble (toDouble (base - effectivePrice t)) base) 100)
                else Finite 0)
           (sort_key min_quantity tiers)"
    by (simp add: tierRows_def tierRow_def sortedTiers_def Let_def comp_def bu
        calculateSavingsPercentage_def not_less)
  have ex: "map (\<lambda>r. (min_quantity (row_tier r), savingsPercentage r)) (tierRows exampleTiers 10 None)
       = [(5, Finite 5), (10, Finite 10), (50, Finite 30)]"
    by (rule exampleTiers_rows) (simp add: baseUnitPrice_def truthy_def)
  have tab: "TieredPricingTable tiers basePrice baseDiscountedPrice =
       (if tiers = [] then None else Some (tierRows tiers basePrice baseDiscountedPrice))"
    by (simp add: TieredPricingTable_def)
  have srt: "sorted (map min_quantity (map row_tier (tierRows tiers basePrice baseDiscountedPrice)))"
    unfolding rows by simp
  have ms: "mset (map row_tier (tierRows tiers basePrice baseDiscountedPrice)) = mset tiers"
    unfolding rows by simp
  show ?thesis
    using rows srt ms bu sav tab ex unfolding base_def by blast
qed

theorem tierRows_sorted_savings_witness:
  "map savingsPercentage (tierRows exampleTiers 30 (Some 10)) = [Finite 5, Finite 10, Finite 30]
   \<and> map min_quantity (map row_tier (tierRows exampleTiers 30 (Some 10))) = [5, 10, 50]
   \<and> baseUnitPrice 10 (Some 0) = 10
   \<and> map savingsPercentage (tierRows exampleTiers 10 (Some 0)) = [Finite 5, Finite 10, Finite 30]
   \<and> map savingsPercentage (tierRows exampleTiers 0 None) = [Finite 0, Finite 0, Finite 0]"
proof -
  note t1 = tierRows_sorted_savings [of exampleTiers 30 "Some 10"]
  note t2 = tierRows_sorted_savings [of exampleTiers 10 "Some 0"]
  note t3 = tierRows_sorted_savings [of exampleTiers 0 None]
  have s: "sort_key min_quantity exampleTiers =
     [\<lparr> tier_id = ''c'', min_quantity = 5, unit_price = 19 / 2, discounted_unit_price = None \<rparr>,
      \<lparr> tier_id = ''a'', min_quantity = 10, unit_price = 9, discounted_unit_price = None \<rparr>,
      \<lparr> tier_id = ''b'', min_quantity = 50, unit_price = 7, discounted_unit_price = None \<rparr>]"
    by (simp add: exampleTiers_def)
  have m: "mathRound (timesDouble (divDouble (toDouble (10 - n)) 10) 100)
      = calculateSavingsPercentage 10 n" for n
    by (simp add: calculateSavingsPercentage_def)
  have a: "map savingsPercentage (tierRows exampleTiers 30 (Some 10)) = [Finite 5, Finite 10, Finite 30]"
    using t1 unfolding s
    by (simp add: effectivePrice_def truthy_def m savings_10_9 savings_10_7 savings_10_19_2)
  have b: "map min_quantity (map row_tier (tierRows exampleTiers 30 (Some 10))) = [5, 10, 50]"
    using t1 unfolding s by simp
  have c: "baseUnitPrice 10 (Some 0) = 10"
    using t2 by simp
  have d: "map savingsPercentage (tierRows exampleTiers 10 (Some 0)) = [Finite 5, Finite 10, Finite 30]"
    using t2 unfolding s
    by (simp add: effectivePrice_def truthy_def m savings_10_9 savings_10_7 savings_10_19_2)
  have e: "map savingsPercentage (tierRows exampleTiers 0 None) = [Finite 0, Finite 0, Finite 0]"
    using t3 unfolding s by simp
  show ?thesis using a b c d e by blast
qed



section \<open>Properties of the media manager\<close>

lemmas ex_defs = exampleEnv_def exampleProps_def emptyManager_def exampleFile_def exampleItem_def

lemmas op_defs = handleFileSelect_def handleFileSelect_begin_def
  handleFileSelect_resume_def filesToAdd_def slice0_def validationOptions_def finallyDone_def
  setFeaturedImage_def removeImage_def promoteFirst_def getOrEmpty_def Let_def
  handleCropComplete_def handleRecropImage_def

lemmas page_defs = run_def step_def mount_def render_def deref_def handleFileSelect_start_def
  handleFileSelect_finish_def removeImage_shared_def setFeaturedImage_shared_def

lemma newImages_length: "length (fst (newImages env vr e i fs s)) = length fs"
  by (induction fs arbitrary: i s) (simp_all add: Let_def)


lemma newImages_uuidCount: "uuidCount (snd (newImages env vr e i fs s)) = uuidCount s + length fs"
  by (induction fs arbitrary: i s) (simp_all add: Let_def)

lemma newImages_ids:
  "map id_item (fst (newImages env vr e i fs s)) =
     map (\<lambda>k. ''new-'' @ uuidv4 env k) [uuidCount s ..< uuidCount s + length fs]"
proof (induction fs arbitrary: i s)
  case Nil
  then show ?case by simp
next
  case (Cons f fs)
  show ?case
    by (simp add: Let_def Cons.IH upt_conv_Cons del: upt_Suc)
qed

lemma newImages_later_not_featured:
  "filter isFeatured (fst (newImages env vr e (Suc i) fs s)) = []"
  by (induction fs arbitrary: i s) (simp_all add: Let_def)

lemma newImages_featuredCount:
  "featuredCount (fst (newImages env vr e i fs s)) = (if e \<and> i = 0 \<and> fs \<noteq> [] then 1 else 0)"
proof (cases fs)
  case Nil
  then show ?thesis by (simp add: featuredCount_def)
next
  case (Cons f fs')
  then show ?thesis
    by (simp add: Let_def featuredCount_def newImages_later_not_featured)
qed

lemma finallyDone_simps [simp]:
  "images (finallyDone s) = images s"
  "uuidCount (finallyDone s) = uuidCount s"
  "processingQueueRef (finallyDone s) = False"
  "isProcessing (finallyDone s) = False"
  "toasts (finallyDone s) = toasts s"
  by (simp_all add: finallyDone_def)

lemma handleFileSelect_cases:
  "(images (handleFileSelect env p s files) = images s
      \<and> uuidCount (handleFileSelect env p s files) = uuidCount s)
   \<or> (\<exists>fs vr s2.
        files = Some fs \<and> \<not> processingQueueRef s
      \<and> validateFilesWithMultiLayerValidation env (filesToAdd p (images s) fs)
            (validationOptions p (images s)) = Some vr
      \<and> validFiles vr \<noteq> []
      \<and> uuidCount s2 = uuidCount s
      \<and> images (handleFileSelect env p s files) =
            images s @ fst (newImages env vr (images s = []) 0 (validFiles vr) s2)
      \<and> uuidCount (handleFileSelect env p s files) = uuidCount s + length (validFiles vr))"
proof (cases files)
  case None
  then show ?thesis by (simp add: handleFileSelect_def handleFileSelect_begin_def)
next
  case (Some fs)
  show ?thesis
  proof (cases "fs = [] \<or> processingQueueRef s \<or> filesToAdd p (images s) fs = []")
    case True
    then show ?thesis using Some
      by (auto simp: handleFileSelect_def handleFileSelect_begin_def Let_def)
  next
    case False
    let ?out = "validateFilesWithMultiLayerValidation env (filesToAdd p (images s) fs)
            (validationOptions p (images s))"
    show ?thesis
    proof (cases ?out)
      case None
      then show ?thesis using Some False
        by (simp add: handleFileSelect_def handleFileSelect_begin_def Let_def
            handleFileSelect_resume_def)
    next
      case (Some vr)
      note vr = this
      show ?thesis
      proof (cases "validFiles vr = []")
        case True
        then show ?thesis using \<open>files = Some fs\<close> False vr
          by (simp add: handleFileSelect_def handleFileSelect_begin_def Let_def
              handleFileSelect_resume_def)
      next
        case nonempty: False
        define s1 where "s1 = s \<lparr> processingQueueRef := True, isProcessing := True \<rparr>"
        define s2 where "s2 =
          (if duplicates vr \<noteq> []
           then s1 \<lparr> toasts := (toasts s1 @ map (\<lambda>(n, r). ErrorInvalid n r) (invalid vr))
                                @ [WarningDuplicates (duplicates vr)] \<rparr>
           else s1 \<lparr> toasts := toasts s1 @ map (\<lambda>(n, r). ErrorInvalid n r) (invalid vr) \<rparr>)"
        have u: "uuidCount s2 = uuidCount s"
          by (simp add: s2_def s1_def)
        have im: "images (handleFileSelect env p s files) =
            images s @ fst (newImages env vr (images s = []) 0 (validFiles vr) s2)"
          using \<open>files = Some fs\<close> False vr nonempty
          by (simp add: handleFileSelect_def handleFileSelect_begin_def Let_def
              handleFileSelect_resume_def s2_def s1_def)
        have uc: "uuidCount (handleFileSelect env p s files) = uuidCount s + length (validFiles vr)"
          using \<open>files = Some fs\<close> False vr nonempty
          by (simp add: handleFileSelect_def handleFileSelect_begin_def Let_def
              handleFileSelect_resume_def newImages_uuidCount)
        show ?thesis
          using \<open>files = Some fs\<close> False vr nonempty u im uc by blast
      qed
    qed
  qed
qed

lemma featuredCount_append: "featuredCount (xs @ ys) = featuredCount xs + featuredCount ys"
  by (simp add: featuredCount_def)

lemma find_distinct_nth:
  "distinct (map f xs) \<Longrightarrow> i < length xs \<Longrightarrow> find (\<lambda>x. f x = f (xs ! i)) xs = Some (xs ! i)"
proof (induction xs arbitrary: i)
  case Nil
  then show ?case by simp
next
  case (Cons x xs)
  show ?case
  proof (cases i)
    case 0
    then show ?thesis by simp
  next
    case (Suc j)
    with Cons.prems have "f x \<noteq> f (xs ! j)" by (auto simp: image_iff)
    with Cons Suc show ?thesis by simp
  qed
qed

lemma filter_distinct_nth:
  "distinct (map f xs) \<Longrightarrow> i < length xs \<Longrightarrow>
     filter (\<lambda>x. f x \<noteq> f (xs ! i)) xs = take i xs @ drop (Suc i) xs"
proof (induction xs arbitrary: i)
  case Nil
  then show ?case by simp
next
  case (Cons x xs)
  show ?case
  proof (cases i)
    case 0
    from Cons.prems have "\<forall>y\<in>set xs. f y \<noteq> f x" by (auto simp: image_iff)
    with 0 show ?thesis by simp
  next
    case (Suc j)
    with Cons.prems have "f x \<noteq> f (xs ! j)" by (auto simp: image_iff)
    with Cons Suc show ?thesis by simp
  qed
qed

lemma featuredCount_remove_nth:
  "i < length xs \<Longrightarrow>
     featuredCount (take i xs @ drop (Suc i) xs) + (if isFeatured (xs ! i) then 1 else 0)
       = featuredCount xs"
proof -
  assume i: "i < length xs"
  have "xs = take i xs @ xs ! i # drop (Suc i) xs"
    using i by (simp add: id_take_nth_drop)
  then have "featuredCount xs = featuredCount (take i xs @ xs ! i # drop (Suc i) xs)"
    by simp
  then show ?thesis
    by (simp add: featuredCount_def)
qed

lemma featuredCount_promoteFirst:
  "featuredCount xs = 0 \<Longrightarrow> xs \<noteq> [] \<Longrightarrow> featuredCount (promoteFirst xs) = 1"
  by (cases xs) (simp_all add: promoteFirst_def featuredCount_def split: if_splits)

lemma ids_promoteFirst: "map id_item (promoteFirst xs) = map id_item xs"
  by (cases xs) (simp_all add: promoteFirst_def)

lemma removeImage_images:
  "images (removeImage s imageId) =
     (case find (\<lambda>img. id_item img = imageId) (images s) of
        Some r \<Rightarrow> if isFeatured r \<and> filter (\<lambda>img. id_item img \<noteq> imageId) (images s) \<noteq> []
                  then promoteFirst (filter (\<lambda>img. id_item img \<noteq> imageId) (images s))
                  else filter (\<lambda>img. id_item img \<noteq> imageId) (images s)
      | None \<Rightarrow> filter (\<lambda>img. id_item img \<noteq> imageId) (images s))"
  by (simp add: removeImage_def Let_def split: option.splits)

lemma removeImage_uuidCount: "uuidCount (removeImage s imageId) = uuidCount s"
  by (simp add: removeImage_def Let_def split: option.splits)

lemma removeImage_nth:
  assumes "distinct (map id_item (images s))" and "i < length (images s)"
  shows "images (removeImage s (id_item (images s ! i))) =
     (if isFeatured (images s ! i) \<and> take i (images s) @ drop (Suc i) (images s) \<noteq> []
      then promoteFirst (take i (images s) @ drop (Suc i) (images s))
      else take i (images s) @ drop (Suc i) (images s))"
proof -
  have f: "find (\<lambda>img. id_item img = id_item (images s ! i)) (images s) = Some (images s ! i)"
    using assms by (rule find_distinct_nth)
  have g: "filter (\<lambda>img. id_item img \<noteq> id_item (images s ! i)) (images s)
      = take i (images s) @ drop (Suc i) (images s)"
    using assms by (rule filter_distinct_nth)
  show ?thesis
    by (simp only: removeImage_images f g option.case)
qed

lemma setFeatured_count:
  "distinct (map id_item xs) \<Longrightarrow> i < length xs \<Longrightarrow>
     featuredCount (map (\<lambda>img. img \<lparr> isFeatured := (id_item img = id_item (xs ! i)) \<rparr>) xs) = 1"
proof (induction xs arbitrary: i)
  case Nil
  then show ?case by simp
next
  case (Cons x xs)
  show ?case
  proof (cases i)
    case 0
    from Cons.prems have "\<forall>y\<in>set xs. id_item y \<noteq> id_item x" by (auto simp: image_iff)
    then have "filter (\<lambda>img. id_item img = id_item x) xs = []"
      by (simp add: filter_empty_conv)
    with 0 show ?thesis
      by (simp add: featuredCount_def filter_map comp_def)
  next
    case (Suc j)
    with Cons.prems have "id_item x \<noteq> id_item (xs ! j)" by (auto simp: image_iff)
    with Cons Suc show ?thesis by (simp add: featuredCount_def)
  qed
qed

lemma recropImages_ids:
  "map id_item (fst (recropImages env cf rid imgs s)) = map id_item imgs"
  by (induction imgs arbitrary: s) (simp_all add: Let_def)

lemma recropImages_featured:
  "map isFeatured (fst (recropImages env cf rid imgs s)) = map isFeatured imgs"
  by (induction imgs arbitrary: s) (simp_all add: Let_def)

lemma recropImages_uuidCount:
  "uuidCount (snd (recropImages env cf rid imgs s)) = uuidCount s"
  by (induction imgs arbitrary: s) (simp_all add: Let_def split: option.splits)

lemma featuredCount_map: "featuredCount xs = length (filter id (map isFeatured xs))"
  by (simp add: featuredCount_def filter_map comp_def)

lemma featuredCount_cong:
  "map isFeatured xs = map isFeatured ys \<Longrightarrow> featuredCount xs = featuredCount ys"
  by (simp add: featuredCount_map)

lemma oneFeatured_cong:
  "map isFeatured xs = map isFeatured ys \<Longrightarrow> oneFeatured xs = oneFeatured ys"
proof -
  assume a: "map isFeatured xs = map isFeatured ys"
  then have "length xs = length ys" by (rule map_eq_imp_length_eq)
  then have "(xs = []) = (ys = [])" by auto
  with a show ?thesis by (simp add: oneFeatured_def featuredCount_cong [OF a])
qed

lemma validState_cong:
  "images s' = images s \<Longrightarrow> uuidCount s' = uuidCount s \<Longrightarrow> validState env s' = validState env s"
  by (simp add: validState_def freshIds_def)

lemma validState_append:
  assumes v: "validState env s"
    and ids: "map id_item news = map (\<lambda>k. ''new-'' @ uuidv4 env k) [uuidCount s ..< uuidCount s + n]"
    and fc: "featuredCount news = (if images s = [] \<and> news \<noteq> [] then 1 else 0)"
    and im: "images s' = images s @ news"
    and uc: "uuidCount s' = uuidCount s + n"
  shows "validState env s'"
proof -
  from v have d: "distinct (map id_item (images s))" and o: "oneFeatured (images s)"
    and inj: "inj (uuidv4 env)"
    and fresh: "\<forall>k\<ge>uuidCount s. ''new-'' @ uuidv4 env k \<notin> id_item ` set (images s)"
    by (simp_all add: validState_def freshIds_def)
  define g where "g = (\<lambda>k. ''new-'' @ uuidv4 env k)"
  have inj': "inj g"
    using inj by (simp add: inj_def g_def)
  have ids': "map id_item news = map g [uuidCount s ..< uuidCount s + n]"
    using ids by (simp add: g_def)
  have fresh': "\<forall>k\<ge>uuidCount s. g k \<notin> id_item ` set (images s)"
    using fresh by (simp add: g_def)
  have dn: "distinct (map id_item news)"
    unfolding ids' using inj' by (simp add: distinct_map inj_on_def inj_def)
  have disj: "set (map id_item (images s)) \<inter> set (map id_item news) = {}"
  proof (rule ccontr)
    assume "set (map id_item (images s)) \<inter> set (map id_item news) \<noteq> {}"
    then obtain x where x1: "x \<in> set (map id_item (images s))"
      and x2: "x \<in> set (map id_item news)" by auto
    from x2 obtain k where "x = g k" "uuidCount s \<le> k" unfolding ids' by auto
    with fresh' have "x \<notin> id_item ` set (images s)" by simp
    with x1 show False by simp
  qed
  have d': "distinct (map id_item (images s'))"
    using d dn disj by (simp add: im)
  have o': "oneFeatured (images s')"
    using o fc by (auto simp: im oneFeatured_def featuredCount_append split: if_splits)
  have "g k \<notin> id_item ` set (images s')" if "k \<ge> uuidCount s'" for k
  proof -
    from that uc have k: "k \<ge> uuidCount s + n" by simp
    then have a: "g k \<notin> id_item ` set (images s)" using fresh' by simp
    have "g k \<notin> set (map id_item news)"
      unfolding ids' using k inj' by (fastforce simp: inj_def)
    with a show ?thesis by (simp add: im image_Un)
  qed
  then have "freshIds env s'"
    using inj by (simp add: freshIds_def g_def)
  with d' o' show ?thesis by (simp add: validState_def)
qed

lemma handleFileSelect_valid:
  assumes "validState env s"
  shows "validState env (handleFileSelect env p s files)"
proof -
  consider
    (same) "images (handleFileSelect env p s files) = images s"
           "uuidCount (handleFileSelect env p s files) = uuidCount s"
  | (added) vr s2 where
      "validFiles vr \<noteq> []" "uuidCount s2 = uuidCount s"
      "images (handleFileSelect env p s files) =
            images s @ fst (newImages env vr (images s = []) 0 (validFiles vr) s2)"
      "uuidCount (handleFileSelect env p s files) = uuidCount s + length (validFiles vr)"
    using handleFileSelect_cases [of env p s files] by blast
  then show ?thesis
  proof cases
    case same
    then show ?thesis using assms validState_cong [of "handleFileSelect env p s files" s env]
      by simp
  next
    case added
    let ?news = "fst (newImages env vr (images s = []) 0 (validFiles vr) s2)"
    have "length ?news = length (validFiles vr)"
      by (rule newImages_length)
    with added(1) have ne: "?news \<noteq> []"
      by auto
    show ?thesis
    proof (rule validState_append [OF assms _ _ added(3) added(4)])
      show "map id_item ?news = map (\<lambda>k. ''new-'' @ uuidv4 env k)
              [uuidCount s ..< uuidCount s + length (validFiles vr)]"
        using newImages_ids [of env vr "images s = []" 0 "validFiles vr" s2] added(2) by simp
      show "featuredCount ?news = (if images s = [] \<and> ?news \<noteq> [] then 1 else 0)"
        using ne added(1) by (simp add: newImages_featuredCount)
    qed
  qed
qed

lemma handleDrop_valid:
  assumes "validState env s"
  shows "validState env (handleDrop env p s files)"
proof -
  have v: "validState env (s \<lparr> dragOver := False \<rparr>)"
    using assms validState_cong [of "s \<lparr> dragOver := False \<rparr>" s env] by simp
  show ?thesis
  proof (cases "isProcessing s")
    case True
    then have "handleDrop env p s files = s \<lparr> dragOver := False, toasts := toasts s @ [InfoBusy] \<rparr>"
      by (simp add: handleDrop_def Let_def)
    then show ?thesis
      using assms validState_cong [of "s \<lparr> dragOver := False, toasts := toasts s @ [InfoBusy] \<rparr>" s env]
      by simp
  next
    case False
    then show ?thesis
      using handleFileSelect_valid [OF v, of p files]
      by (simp add: handleDrop_def Let_def)
  qed
qed

lemma setFeaturedImage_valid:
  assumes "validState env s" and "i < length (images s)"
  shows "validState env (setFeaturedImage s (id_item (images s ! i)))"
proof -
  from assms have d: "distinct (map id_item (images s))" by (simp add: validState_def)
  have ids: "map id_item (images (setFeaturedImage s (id_item (images s ! i)))) = map id_item (images s)"
    by (simp add: setFeaturedImage_def comp_def)
  have fc: "featuredCount (images (setFeaturedImage s (id_item (images s ! i)))) = 1"
    using setFeatured_count [OF d assms(2)] by (simp add: setFeaturedImage_def)
  have ne: "images (setFeaturedImage s (id_item (images s ! i))) \<noteq> []"
    using assms(2) by (auto simp: setFeaturedImage_def)
  have uc: "uuidCount (setFeaturedImage s (id_item (images s ! i))) = uuidCount s"
    by (simp add: setFeaturedImage_def)
  have "set (map id_item (images (setFeaturedImage s (id_item (images s ! i))))) = set (map id_item (images s))"
    using ids by simp
  then have im: "id_item ` set (images (setFeaturedImage s (id_item (images s ! i)))) = id_item ` set (images s)"
    by simp
  show ?thesis
    using assms(1) d fc ne
    unfolding validState_def freshIds_def oneFeatured_def ids uc im by simp
qed

lemma removeImage_valid:
  assumes "validState env s" and "i < length (images s)"
  shows "validState env (removeImage s (id_item (images s ! i)))"
proof -
  let ?xs = "images s"
  let ?s' = "removeImage s (id_item (?xs ! i))"
  define rest where "rest = take i ?xs @ drop (Suc i) ?xs"
  from assms have d: "distinct (map id_item ?xs)" and o: "oneFeatured ?xs"
    and fr: "freshIds env s"
    by (simp_all add: validState_def)
  have im: "images ?s' = (if isFeatured (?xs ! i) \<and> rest \<noteq> [] then promoteFirst rest else rest)"
    unfolding rest_def using removeImage_nth [OF d assms(2)] .
  have ids: "map id_item (images ?s') = map id_item rest"
    by (simp add: im ids_promoteFirst)
  have flt: "filter (\<lambda>x. id_item x \<noteq> id_item (?xs ! i)) ?xs = rest"
    unfolding rest_def using d assms(2) by (rule filter_distinct_nth)
  have sub: "set rest \<subseteq> set ?xs"
    unfolding flt [symmetric] by auto
  have d_rest: "distinct (map id_item rest)"
    unfolding flt [symmetric] using d by (rule distinct_map_filter)
  have cnt: "featuredCount rest + (if isFeatured (?xs ! i) then 1 else 0) = featuredCount ?xs"
    unfolding rest_def using featuredCount_remove_nth [OF assms(2)] .
  have xs_ne: "?xs \<noteq> []" using assms(2) by auto
  then have one: "featuredCount ?xs = 1" using o by (simp add: oneFeatured_def)
  have o': "oneFeatured (images ?s')"
  proof (cases "isFeatured (?xs ! i)")
    case True
    with cnt one have z: "featuredCount rest = 0" by simp
    show ?thesis
    proof (cases "rest = []")
      case True
      then show ?thesis using im by (simp add: oneFeatured_def featuredCount_def)
    next
      case False
      then have "promoteFirst rest \<noteq> []" by (cases rest) (simp_all add: promoteFirst_def)
      then show ?thesis using True False im featuredCount_promoteFirst [OF z False]
        by (simp add: oneFeatured_def)
    qed
  next
    case False
    with cnt one have z: "featuredCount rest = 1" by simp
    then have "rest \<noteq> []" by (auto simp: featuredCount_def)
    then show ?thesis using False im z by (simp add: oneFeatured_def)
  qed
  have "id_item ` set (images ?s') \<subseteq> id_item ` set ?xs"
  proof -
    have "id_item ` set (images ?s') = set (map id_item (images ?s'))" by simp
    also have "\<dots> = id_item ` set rest" unfolding ids by simp
    also have "\<dots> \<subseteq> id_item ` set ?xs" using sub by (rule image_mono)
    finally show ?thesis .
  qed
  then have fr': "freshIds env ?s'"
    using fr unfolding freshIds_def removeImage_uuidCount by blast
  show ?thesis
    unfolding validState_def using d_rest o' fr' ids by simp
qed

lemma handleCropComplete_valid:
  assumes "validState env s"
  shows "validState env (handleCropComplete env s b)"
proof (cases "imageToRecrop s")
  case None
  then show ?thesis using assms by (simp add: handleCropComplete_def)
next
  case (Some target)
  define cf where "cf = \<lparr> file_name = ''recropped-'' @ uuidv4 env (uuidCount s) @ ''.jpg'',
                               file_type = ''image/jpeg'',
                               file_data = blob_data b \<rparr>"
  define r where "r = recropImages env cf (id_item target) (images s) (s \<lparr> uuidCount := Suc (uuidCount s) \<rparr>)"
  have im: "images (handleCropComplete env s b) = fst r"
    and uc: "uuidCount (handleCropComplete env s b) = Suc (uuidCount s)"
    using Some by (simp_all add: handleCropComplete_def Let_def r_def cf_def recropImages_uuidCount)
  have ids: "map id_item (fst r) = map id_item (images s)"
    by (simp add: r_def recropImages_ids)
  have fe: "map isFeatured (fst r) = map isFeatured (images s)"
    by (simp add: r_def recropImages_featured)
  have "set (map id_item (fst r)) = set (map id_item (images s))"
    using ids by simp
  then have ims: "id_item ` set (fst r) = id_item ` set (images s)" by simp
  from assms have d: "distinct (map id_item (images s))" and o: "oneFeatured (images s)"
    and inj: "inj (uuidv4 env)"
    and fresh: "\<forall>k\<ge>uuidCount s. ''new-'' @ uuidv4 env k \<notin> id_item ` set (images s)"
    by (simp_all add: validState_def freshIds_def)
  have o': "oneFeatured (fst r)"
    using o oneFeatured_cong [OF fe] by simp
  have fresh': "\<forall>k\<ge>Suc (uuidCount s). ''new-'' @ uuidv4 env k \<notin> id_item ` set (fst r)"
    unfolding ims using fresh by (simp add: Suc_le_eq less_imp_le)
  show ?thesis
    unfolding validState_def freshIds_def im uc ids
    using d o' inj fresh' by simp
qed

lemma stepAtomic_valid:
  assumes "validState env s"
  shows "validState env (stepAtomic env p s e)"
proof (cases e)
  case (SelectFiles files)
  then show ?thesis using handleFileSelect_valid [OF assms] by (simp add: stepAtomic_def)
next
  case (DropFiles files)
  then show ?thesis using handleDrop_valid [OF assms] by (simp add: stepAtomic_def)
next
  case ValidatorSettles
  then show ?thesis using assms by (simp add: stepAtomic_def)
next
  case (ClickFeatured i)
  then show ?thesis using setFeaturedImage_valid [OF assms] assms by (simp add: stepAtomic_def)
next
  case (ClickRecrop i)
  then show ?thesis
    using assms validState_cong [of "handleRecropImage s (images s ! i)" s env]
    by (simp add: stepAtomic_def handleRecropImage_def)
next
  case (ClickRemove i)
  then show ?thesis using removeImage_valid [OF assms] assms by (simp add: stepAtomic_def)
next
  case (CropComplete b)
  then show ?thesis using handleCropComplete_valid [OF assms] by (simp add: stepAtomic_def)
next
  case CropCancel
  then show ?thesis
    using assms validState_cong [of "handleCropCancel s" s env]
    by (simp add: stepAtomic_def handleCropCancel_def)
next
  case DragOver
  then show ?thesis
    using assms validState_cong [of "s \<lparr> dragOver := True \<rparr>" s env]
    by (simp add: stepAtomic_def)
next
  case DragLeave
  then show ?thesis
    using assms validState_cong [of "s \<lparr> dragOver := False \<rparr>" s env]
    by (simp add: stepAtomic_def)
qed

lemma runAtomic_valid: "validState env s \<Longrightarrow> validState env (runAtomic env p s es)"
  unfolding runAtomic_def
  by (induction es arbitrary: s) (simp_all add: stepAtomic_valid)



lemma handleFileSelect_begin_pending:
  "handleFileSelect_begin p s files = (s1, Some pend) \<Longrightarrow>
     (\<exists>fs. files = Some fs \<and> fs \<noteq> [] \<and> \<not> processingQueueRef s
        \<and> p_filesToAdd pend = filesToAdd p (images s) fs \<and> p_images pend = images s
        \<and> s1 = s \<lparr> processingQueueRef := True, isProcessing := True \<rparr>)"
  by (auto simp: handleFileSelect_begin_def Let_def split: option.splits if_splits)

text \<open>
  The drop zone has a busy check of its own, on \<open>isProcessing\<close>; it runs after the
  drag-over highlight has been switched off.
\<close>

lemma handleDrop_busy:
  "isProcessing s \<Longrightarrow>
     handleDrop env p s files = s \<lparr> dragOver := False, toasts := toasts s @ [InfoBusy] \<rparr>"
  by (simp add: handleDrop_def Let_def)

lemma recropImages_absent:
  "rid \<notin> id_item ` set imgs \<Longrightarrow> recropImages env cf rid imgs s = (imgs, s)"
  by (induction imgs) (auto simp: Let_def)

lemma recropImages_nth:
  assumes "distinct (map id_item imgs)" and "i < length imgs"
  shows "recropImages env cf (id_item (imgs ! i)) imgs s =
     (imgs[i := (imgs ! i) \<lparr> url := createObjectURL env (createdObjectURLs s),
                              file_item := Some cf \<rparr>],
      s \<lparr> revokedObjectURLs := revokedObjectURLs s @
             (case map_of (fileReferencesRef s) (id_item (imgs ! i)) of
                Some oldRef \<Rightarrow> [snd oldRef] | None \<Rightarrow> []),
          createdObjectURLs := Suc (createdObjectURLs s),
          fileReferencesRef :=
            AList.update (id_item (imgs ! i)) (cf, createObjectURL env (createdObjectURLs s))
              (fileReferencesRef s) \<rparr>)"
  using assms
proof (induction imgs arbitrary: i)
  case Nil
  then show ?case by simp
next
  case (Cons x xs)
  show ?case
  proof (cases i)
    case 0
    from Cons.prems have "id_item x \<notin> id_item ` set xs" by simp
    then have "recropImages env cf (id_item x) xs s' = (xs, s')" for s'
      by (rule recropImages_absent)
    with 0 show ?thesis
      by (simp add: Let_def split: option.splits)
  next
    case (Suc j)
    with Cons.prems have ne: "id_item x \<noteq> id_item (xs ! j)" by (auto simp: image_iff)
    from Cons.prems Suc have "distinct (map id_item xs)" "j < length xs" by simp_all
    from Cons.IH [OF this] ne Suc show ?thesis
      by (simp add: Let_def)
  qed
qed

text \<open>
  New objects are put after the objects that exist, and an array that refers to existing
  objects and then to the new ones denotes the old values followed by the new ones.
\<close>

lemma deref_append:
  assumes "\<forall>a\<in>set as. a < length objs"
  shows "deref (objs @ new) (as @ [length objs ..< length objs + length new]) = deref objs as @ new"
proof -
  have 1: "map (\<lambda>a. (objs @ new) ! a) as = map (\<lambda>a. objs ! a) as"
    using assms by (simp add: nth_append)
  have 2: "map (\<lambda>a. (objs @ new) ! a) [length objs ..< length objs + length new] = new"
    by (rule nth_equalityI) simp_all
  show ?thesis by (simp add: deref_def 1 2)
qed

lemma handleFileSelect_resume_appends:
  assumes "validFiles vr \<noteq> []"
  shows "\<exists>news. images (handleFileSelect_resume env s pend (Some vr)) = p_images pend @ news"
  using assms by (simp add: handleFileSelect_resume_def Let_def finallyDone_def)

text \<open>
  The two descriptions of \<open>handleFileSelect\<close> agree when no event falls between the call
  and the answer of the validator: on a page whose component state shows the array of the
  host, starting the call and letting the validator settle gives the component state that
  the whole call gives on values.
\<close>

lemma atomic_add_agrees:
  assumes view: "images (mstate pg) = deref (objects pg) (imagesRef pg)"
    and valid: "\<forall>a\<in>set (imagesRef pg). a < length (objects pg)"
    and idle: "suspended pg = None"
  shows "mstate (handleFileSelect_finish env (handleFileSelect_start env p pg files))
         = handleFileSelect env p (mstate pg) files"
proof (cases "handleFileSelect_begin p (mstate pg) files")
  case (Pair s1 q)
  show ?thesis
  proof (cases q)
    case None
    with Pair idle show ?thesis
      by (simp add: handleFileSelect_start_def handleFileSelect_finish_def handleFileSelect_def)
  next
    case (Some pend)
    from handleFileSelect_begin_pending [of p "mstate pg" files s1 pend] Pair Some
    have pi: "p_images pend = images (mstate pg)" by auto
    define out where "out = validateFilesWithMultiLayerValidation env (p_filesToAdd pend)
                                 (validationOptions p (p_images pend))"
    define stale where "stale = deref (objects pg) (imagesRef pg)"
    define s2 where "s2 = handleFileSelect_resume env s1
                     \<lparr> p_images = stale, p_filesToAdd = p_filesToAdd pend \<rparr> out"
    have pend_eq: "\<lparr> p_images = stale, p_filesToAdd = p_filesToAdd pend \<rparr> = pend"
      using pi view by (simp add: stale_def)
    have rhs: "handleFileSelect env p (mstate pg) files = s2"
      using Pair Some by (simp add: handleFileSelect_def s2_def out_def pend_eq)
    define added where "added = (case out of
                         None \<Rightarrow> []
                       | Some vr \<Rightarrow> if validFiles vr = [] then [] else drop (length stale) (images s2))"
    have st: "handleFileSelect_start env p pg files =
        pg \<lparr> mstate := s1, suspended := Some \<lparr> c_images = imagesRef pg,
             c_filesToAdd = p_filesToAdd pend, c_outcome = out \<rparr> \<rparr>"
      using Pair Some by (simp add: handleFileSelect_start_def out_def)
    have fin: "handleFileSelect_finish env (handleFileSelect_start env p pg files) =
        (if added = [] then pg \<lparr> mstate := s2, suspended := None \<rparr>
         else render
                (pg \<lparr> objects := objects pg @ added,
                      imagesRef := imagesRef pg @
                        [length (objects pg) ..< length (objects pg) + length added],
                      mstate := s2,
                      suspended := None \<rparr>))"
      unfolding st
      by (cases out) (simp_all add: handleFileSelect_finish_def Let_def stale_def s2_def added_def)
    show ?thesis
    proof (cases "added = []")
      case True
      then show ?thesis
        unfolding fin rhs by simp
    next
      case False
      then obtain vr where vr: "out = Some vr" "validFiles vr \<noteq> []"
        by (auto simp: added_def split: option.splits if_splits)
      have pst: "p_images pend = stale" using pi view by (simp add: stale_def)
      have s2p: "s2 = handleFileSelect_resume env s1 pend (Some vr)"
        by (simp add: s2_def pend_eq vr(1))
      from handleFileSelect_resume_appends [OF vr(2), of env s1 pend]
      obtain news where news: "images s2 = stale @ news"
        unfolding s2p pst by blast
      have ad: "added = news" using vr news by (simp add: added_def)
      have "deref (objects pg @ added)
              (imagesRef pg @ [length (objects pg) ..< length (objects pg) + length added])
            = images s2"
        using deref_append [OF valid, of added] by (simp add: ad news stale_def)
      then show ?thesis
        unfolding fin rhs using False
        by (simp add: render_def)
    qed
  qed
qed

text \<open>
  When no event falls between the two halves of an addition, the invariant on the featured
  flag is kept: from a valid state, whatever events follow, the list has one featured image
  when it is not empty and none when it is empty.
\<close>

lemma featured_invariant_atomic:
  assumes "validState env s"
  shows "length (filter isFeatured (images (runAtomic env p s es)))
           = (if images (runAtomic env p s es) = [] then 0 else 1)
         \<and> validState env (runAtomic env p s es)"
  using runAtomic_valid [OF assms, of p es]
  by (simp add: validState_def oneFeatured_def featuredCount_def)

text \<open>
  C1 does not hold of the code. The list \<open>[x, y]\<close> with \<open>x\<close> featured has distinct ids and
  one featured image. A file is selected, and while the validator is at work the remove
  button of \<open>x\<close> is clicked: \<open>removeImage\<close> marks the object \<open>y\<close> as featured (line 233) and
  the host gets \<open>[y]\<close>. When the validator settles, \<open>handleFileSelect\<close> appends the new
  image to the array of its closure, which still holds \<open>x\<close> and the object \<open>y\<close>, and hands
  the result to the host (lines 140-141): the list is \<open>[x, y, new]\<close> with both \<open>x\<close> and
  \<open>y\<close> featured. With the same two events in the other order the list is \<open>[y, new]\<close>
  with one featured image.
\<close>

theorem stale_add_two_featured:
  "distinct (map id_item (images twoImages))
   \<and> featuredCount (images twoImages) = 1
   \<and> map (\<lambda>img. (id_item img, isFeatured img))
        (images (mstate (run exampleEnv defaultProps (mount twoImages)
           [SelectFiles (Some [exampleFile ''c'']), ClickRemove 0, ValidatorSettles])))
       = [(''x'', True), (''y'', True), (''new-u'', False)]
   \<and> featuredCount
        (images (mstate (run exampleEnv defaultProps (mount twoImages)
           [SelectFiles (Some [exampleFile ''c'']), ClickRemove 0, ValidatorSettles]))) = 2
   \<and> map (\<lambda>img. (id_item img, isFeatured img))
        (images (mstate (run exampleEnv defaultProps (mount twoImages)
           [SelectFiles (Some [exampleFile ''c'']), ValidatorSettles, ClickRemove 0])))
       = [(''y'', True), (''new-u'', False)]"
proof -
  have a: "distinct (map id_item (images twoImages))" "featuredCount (images twoImages) = 1"
    by (simp_all add: twoImages_def ex_defs featuredCount_def)
  have b: "map (\<lambda>img. (id_item img, isFeatured img))
        (images (mstate (run exampleEnv defaultProps (mount twoImages)
           [SelectFiles (Some [exampleFile ''c'']), ClickRemove 0, ValidatorSettles])))
       = [(''x'', True), (''y'', True), (''new-u'', False)]"
    by (simp add: page_defs op_defs twoImages_def ex_defs defaultProps_def)
  have "map isFeatured
        (images (mstate (run exampleEnv defaultProps (mount twoImages)
           [SelectFiles (Some [exampleFile ''c'']), ClickRemove 0, ValidatorSettles])))
       = [True, True, False]"
    using arg_cong [OF b, of "map snd"] by (simp add: comp_def)
  then have c: "featuredCount
        (images (mstate (run exampleEnv defaultProps (mount twoImages)
           [SelectFiles (Some [exampleFile ''c'']), ClickRemove 0, ValidatorSettles]))) = 2"
    by (simp add: featuredCount_map)
  have d: "map (\<lambda>img. (id_item img, isFeatured img))
        (images (mstate (run exampleEnv defaultProps (mount twoImages)
           [SelectFiles (Some [exampleFile ''c'']), ValidatorSettles, ClickRemove 0])))
       = [(''y'', True), (''new-u'', False)]"
    by (simp add: page_defs op_defs twoImages_def ex_defs defaultProps_def)
  show ?thesis using a b c d by blast
qed



text \<open>
  C5: while an addition is in flight the busy flag is set; a request to add files that
  arrives then is rejected with the busy notification and changes nothing else (no
  suspended call is left behind, nothing is queued); a request without files returns at
  once, with no notification. When the addition in flight finishes, in whatever way, the
  flag is cleared.
\<close>

theorem busy_add_rejected:
  "(processingQueueRef s \<longrightarrow>
       handleFileSelect_begin p s files =
         (if files = None \<or> files = Some [] then s else s \<lparr> toasts := toasts s @ [InfoBusy] \<rparr>, None)
     \<and> handleFileSelect env p s files =
         (if files = None \<or> files = Some [] then s else s \<lparr> toasts := toasts s @ [InfoBusy] \<rparr>))
   \<and> (handleFileSelect_begin p s0 files = (s1, Some pend) \<longrightarrow>
         processingQueueRef s1 \<and> isProcessing s1 \<and> images s1 = images s0)
   \<and> \<not> processingQueueRef (handleFileSelect_resume env s2 pend2 outcome)
   \<and> \<not> isProcessing (handleFileSelect_resume env s2 pend2 outcome)
   \<and> (\<not> processingQueueRef s0 \<longrightarrow> \<not> processingQueueRef (handleFileSelect env p s0 files))"
proof -
  have a: "processingQueueRef s \<longrightarrow>
       handleFileSelect_begin p s files =
         (if files = None \<or> files = Some [] then s else s \<lparr> toasts := toasts s @ [InfoBusy] \<rparr>, None)"
    by (auto simp: handleFileSelect_begin_def split: option.splits)
  then have b: "processingQueueRef s \<longrightarrow> handleFileSelect env p s files =
         (if files = None \<or> files = Some [] then s else s \<lparr> toasts := toasts s @ [InfoBusy] \<rparr>)"
    by (simp add: handleFileSelect_def)
  have c: "handleFileSelect_begin p s0 files = (s1, Some pend) \<longrightarrow>
         processingQueueRef s1 \<and> isProcessing s1 \<and> images s1 = images s0"
    using handleFileSelect_begin_pending [of p s0 files s1 pend] by auto
  have d: "\<not> processingQueueRef (handleFileSelect_resume env s2 pend2 outcome)"
      "\<not> isProcessing (handleFileSelect_resume env s2 pend2 outcome)"
    by (simp_all add: handleFileSelect_resume_def)
  have e: "\<not> processingQueueRef s0 \<longrightarrow> \<not> processingQueueRef (handleFileSelect env p s0 files)"
  proof (cases "handleFileSelect_begin p s0 files")
    case (Pair t q)
    show ?thesis
    proof (cases q)
      case None
      with Pair show ?thesis
        by (auto simp: handleFileSelect_def handleFileSelect_begin_def Let_def
            split: option.splits if_splits)
    next
      case (Some pd)
      with Pair show ?thesis
        by (simp add: handleFileSelect_def handleFileSelect_resume_def)
    qed
  qed
  show ?thesis using a b c d e by blast
qed

theorem busy_add_rejected_witness:
  "processingQueueRef (emptyManager \<lparr> processingQueueRef := True \<rparr>)
   \<and> handleFileSelect exampleEnv exampleProps (emptyManager \<lparr> processingQueueRef := True \<rparr>)
        (Some [exampleFile ''a''])
       = emptyManager \<lparr> processingQueueRef := True, toasts := [InfoBusy] \<rparr>
   \<and> handleFileSelect_begin exampleProps emptyManager (Some [exampleFile ''a''])
       = (emptyManager \<lparr> processingQueueRef := True, isProcessing := True \<rparr>,
          Some \<lparr> p_images = [], p_filesToAdd = [exampleFile ''a''] \<rparr>)
   \<and> processingQueueRef (emptyManager \<lparr> processingQueueRef := True, isProcessing := True \<rparr>)
   \<and> \<not> processingQueueRef emptyManager
   \<and> \<not> processingQueueRef (handleFileSelect exampleEnv exampleProps emptyManager
        (Some [exampleFile ''a'']))"
proof -
  have b: "processingQueueRef (emptyManager \<lparr> processingQueueRef := True \<rparr>)"
    by simp
  have n: "\<not> processingQueueRef emptyManager"
    by (simp add: emptyManager_def)
  have g: "handleFileSelect_begin exampleProps emptyManager (Some [exampleFile ''a''])
       = (emptyManager \<lparr> processingQueueRef := True, isProcessing := True \<rparr>,
          Some \<lparr> p_images = [], p_filesToAdd = [exampleFile ''a''] \<rparr>)"
    by (simp add: handleFileSelect_begin_def filesToAdd_def slice0_def Let_def ex_defs)
  show ?thesis
    using b n g
      busy_add_rejected [of "emptyManager \<lparr> processingQueueRef := True \<rparr>" exampleProps
        "Some [exampleFile ''a'']" exampleEnv emptyManager
        "emptyManager \<lparr> processingQueueRef := True, isProcessing := True \<rparr>"
        "\<lparr> p_images = [], p_filesToAdd = [exampleFile ''a''] \<rparr>"]
    by (simp add: emptyManager_def)
qed

text \<open>
  C9: in a list with distinct ids and one featured image, removing the featured image from
  a list of two or more leaves the other images in their order with the new first one
  featured and no other; removing it from a list of one leaves the empty list; removing
  an image that is not featured leaves the other images as they were.
\<close>

theorem removeImage_promotes:
  assumes d: "distinct (map id_item (images s))"
    and one: "length (filter isFeatured (images s)) = 1"
    and i: "i < length (images s)"
  shows "(isFeatured (images s ! i) \<and> 2 \<le> length (images s) \<longrightarrow>
            (\<exists>x xs. take i (images s) @ drop (Suc i) (images s) = x # xs
                \<and> images (removeImage s (id_item (images s ! i))) = x \<lparr> isFeatured := True \<rparr> # xs
                \<and> filter isFeatured xs = []))
       \<and> (isFeatured (images s ! i) \<and> length (images s) = 1 \<longrightarrow>
            images (removeImage s (id_item (images s ! i))) = [])
       \<and> (\<not> isFeatured (images s ! i) \<longrightarrow>
            images (removeImage s (id_item (images s ! i)))
              = take i (images s) @ drop (Suc i) (images s))"
proof -
  define rest where "rest = take i (images s) @ drop (Suc i) (images s)"
  let ?after = "images (removeImage s (id_item (images s ! i)))"
  have im: "?after = (if isFeatured (images s ! i) \<and> rest \<noteq> [] then promoteFirst rest else rest)"
    unfolding rest_def using removeImage_nth [OF d i] .
  have cnt: "featuredCount rest + (if isFeatured (images s ! i) then 1 else 0) = 1"
    unfolding rest_def using featuredCount_remove_nth [OF i] one by (simp add: featuredCount_def)
  have len: "length rest = length (images s) - 1"
    unfolding rest_def using i by simp
  have a: "\<exists>x xs. rest = x # xs \<and> ?after = x \<lparr> isFeatured := True \<rparr> # xs \<and> filter isFeatured xs = []"
    if f: "isFeatured (images s ! i)" and l: "2 \<le> length (images s)"
  proof -
    from len l have "rest \<noteq> []" by auto
    then obtain x xs where r: "rest = x # xs" by (cases rest) auto
    from cnt f have "featuredCount rest = 0" by simp
    then have "filter isFeatured xs = []"
      unfolding r featuredCount_def by (simp split: if_splits)
    moreover have "?after = x \<lparr> isFeatured := True \<rparr> # xs"
      using im f r by (simp add: promoteFirst_def)
    ultimately show ?thesis using r by blast
  qed
  have b: "?after = []" if "isFeatured (images s ! i)" and "length (images s) = 1"
  proof -
    from len that(2) have "rest = []" by simp
    with im show ?thesis by simp
  qed
  have c: "?after = rest" if "\<not> isFeatured (images s ! i)"
    using im that by simp
  show ?thesis
    using a b c unfolding rest_def by blast
qed

theorem removeImage_promotes_witness:
  "distinct (map id_item (images twoImages))
   \<and> length (filter isFeatured (images twoImages)) = 1
   \<and> isFeatured (images twoImages ! 0) \<and> 2 \<le> length (images twoImages)
   \<and> images (removeImage twoImages (id_item (images twoImages ! 0))) = [exampleItem ''y'' True]
   \<and> \<not> isFeatured (images twoImages ! 1)
   \<and> images (removeImage twoImages (id_item (images twoImages ! 1))) = [exampleItem ''x'' True]
   \<and> images (removeImage (twoImages \<lparr> images := [exampleItem ''x'' True] \<rparr>) ''x'') = []"
proof -
  have d: "distinct (map id_item (images twoImages))"
    by (simp add: twoImages_def ex_defs)
  have o: "length (filter isFeatured (images twoImages)) = 1"
    by (simp add: twoImages_def ex_defs)
  have i0: "0 < length (images twoImages)" and i1: "1 < length (images twoImages)"
    by (simp_all add: twoImages_def ex_defs)
  let ?one = "twoImages \<lparr> images := [exampleItem ''x'' True] \<rparr>"
  have d1: "distinct (map id_item (images ?one))" and o1: "length (filter isFeatured (images ?one)) = 1"
    and j: "0 < length (images ?one)"
    by (simp_all add: ex_defs)
  show ?thesis
    using d o removeImage_promotes [OF d o i0] removeImage_promotes [OF d o i1]
      removeImage_promotes [OF d1 o1 j]
    by (simp add: twoImages_def ex_defs)
qed

text \<open>
  C10: completing a crop of an image of the list (ids distinct) replaces the \<open>url\<close> and
  \<open>file\<close> of that image and nothing else in the list: its id, its featured flag and all
  other images are unchanged. The object URL the reference map held for that id, if any,
  is revoked once, and the map then holds the new file and URL for that id.
\<close>

theorem handleCropComplete_frame:
  assumes d: "distinct (map id_item (images s))"
    and i: "i < length (images s)"
    and t: "imageToRecrop s = Some target"
    and tid: "id_item target = id_item (images s ! i)"
  shows "images (handleCropComplete env s croppedBlob) =
           (images s)[i := (images s ! i)
              \<lparr> url := createObjectURL env (createdObjectURLs s),
                file_item := Some \<lparr> file_name = ''recropped-'' @ uuidv4 env (uuidCount s) @ ''.jpg'',
                                    file_type = ''image/jpeg'',
                                    file_data = blob_data croppedBlob \<rparr> \<rparr>]
       \<and> id_item (images (handleCropComplete env s croppedBlob) ! i) = id_item (images s ! i)
       \<and> isFeatured (images (handleCropComplete env s croppedBlob) ! i) = isFeatured (images s ! i)
       \<and> revokedObjectURLs (handleCropComplete env s croppedBlob) =
           revokedObjectURLs s @
             (case map_of (fileReferencesRef s) (id_item (images s ! i)) of
                Some oldRef \<Rightarrow> [snd oldRef] | None \<Rightarrow> [])
       \<and> fileReferencesRef (handleCropComplete env s croppedBlob) =
           AList.update (id_item (images s ! i))
             (\<lparr> file_name = ''recropped-'' @ uuidv4 env (uuidCount s) @ ''.jpg'',
                file_type = ''image/jpeg'',
                file_data = blob_data croppedBlob \<rparr>,
              createObjectURL env (createdObjectURLs s))
             (fileReferencesRef s)"
proof -
  define cf where "cf = \<lparr> file_name = ''recropped-'' @ uuidv4 env (uuidCount s) @ ''.jpg'',
                               file_type = ''image/jpeg'',
                               file_data = blob_data croppedBlob \<rparr>"
  define s1 where "s1 = s \<lparr> uuidCount := Suc (uuidCount s) \<rparr>"
  have r: "recropImages env cf (id_item target) (images s) s1 =
     ((images s)[i := (images s ! i) \<lparr> url := createObjectURL env (createdObjectURLs s1),
                              file_item := Some cf \<rparr>],
      s1 \<lparr> revokedObjectURLs := revokedObjectURLs s1 @
             (case map_of (fileReferencesRef s1) (id_item (images s ! i)) of
                Some oldRef \<Rightarrow> [snd oldRef] | None \<Rightarrow> []),
          createdObjectURLs := Suc (createdObjectURLs s1),
          fileReferencesRef :=
            AList.update (id_item (images s ! i)) (cf, createObjectURL env (createdObjectURLs s1))
              (fileReferencesRef s1) \<rparr>)"
    unfolding tid using d i by (rule recropImages_nth)
  have h: "handleCropComplete env s croppedBlob =
      (let updated = recropImages env cf (id_item target) (images s) s1; s2 = snd updated
       in s2 \<lparr> images := fst updated, showCropper := False, imageToRecrop := None,
               toasts := toasts s2 @ [SuccessCropped] \<rparr>)"
    using t by (simp add: handleCropComplete_def cf_def s1_def Let_def)
  have im: "images (handleCropComplete env s croppedBlob) =
      (images s)[i := (images s ! i) \<lparr> url := createObjectURL env (createdObjectURLs s),
                              file_item := Some cf \<rparr>]"
    unfolding h r by (simp add: s1_def)
  have rv: "revokedObjectURLs (handleCropComplete env s croppedBlob) =
           revokedObjectURLs s @
             (case map_of (fileReferencesRef s) (id_item (images s ! i)) of
                Some oldRef \<Rightarrow> [snd oldRef] | None \<Rightarrow> [])"
    unfolding h r by (simp add: s1_def)
  have fr: "fileReferencesRef (handleCropComplete env s croppedBlob) =
           AList.update (id_item (images s ! i)) (cf, createObjectURL env (createdObjectURLs s))
             (fileReferencesRef s)"
    unfolding h r by (simp add: s1_def)
  have idf: "id_item (images (handleCropComplete env s croppedBlob) ! i) = id_item (images s ! i)"
      "isFeatured (images (handleCropComplete env s croppedBlob) ! i) = isFeatured (images s ! i)"
    unfolding im using i by simp_all
  show ?thesis
    using im rv fr idf unfolding cf_def by simp
qed

theorem handleCropComplete_frame_witness:
  "distinct (map id_item (images twoImages))
   \<and> imageToRecrop (handleRecropImage twoImages (images twoImages ! 1)) = Some (exampleItem ''y'' False)
   \<and> images (handleCropComplete exampleEnv (handleRecropImage twoImages (images twoImages ! 1))
        \<lparr> blob_data = ''crop'', blob_type = ''image/jpeg'' \<rparr>)
       = [exampleItem ''x'' True,
          (exampleItem ''y'' False)
            \<lparr> url := ''blob:b'',
              file_item := Some \<lparr> file_name = ''recropped-u.jpg'', file_type = ''image/jpeg'',
                                  file_data = ''crop'' \<rparr> \<rparr>]
   \<and> revokedObjectURLs (handleCropComplete exampleEnv (handleRecropImage twoImages (images twoImages ! 1))
        \<lparr> blob_data = ''crop'', blob_type = ''image/jpeg'' \<rparr>) = [''blob:y'']
   \<and> map_of (fileReferencesRef (handleCropComplete exampleEnv
        (handleRecropImage twoImages (images twoImages ! 1))
        \<lparr> blob_data = ''crop'', blob_type = ''image/jpeg'' \<rparr>)) ''y''
       = Some (\<lparr> file_name = ''recropped-u.jpg'', file_type = ''image/jpeg'',
                  file_data = ''crop'' \<rparr>, ''blob:b'')"
proof -
  let ?s = "handleRecropImage twoImages (images twoImages ! 1)"
  have im: "images ?s = images twoImages"
    by (simp add: handleRecropImage_def)
  have d: "distinct (map id_item (images ?s))"
    by (simp add: handleRecropImage_def twoImages_def ex_defs)
  have i: "1 < length (images ?s)"
    by (simp add: handleRecropImage_def twoImages_def ex_defs)
  have t: "imageToRecrop ?s = Some (exampleItem ''y'' False)"
    by (simp add: handleRecropImage_def twoImages_def ex_defs)
  have tid: "id_item (exampleItem ''y'' False) = id_item (images ?s ! 1)"
    by (simp add: handleRecropImage_def twoImages_def ex_defs)
  show ?thesis
    using d t handleCropComplete_frame [OF d i t tid, of exampleEnv
        "\<lparr> blob_data = ''crop'', blob_type = ''image/jpeg'' \<rparr>"]
    by (simp add: handleRecropImage_def twoImages_def ex_defs)
qed

section \<open>Properties of the upload pipeline\<close>

lemma uploadOne_orders:
  "map (\<lambda>r. (display_order r, is_featured r)) (uploadedImages (uploadOne env u p n i f st)) =
     map (\<lambda>r. (display_order r, is_featured r)) (uploadedImages st)
       @ (if stored env i f then [(i, i = 0)] else [])"
  by (simp add: uploadOne_def uploadTry_def stored_def Let_def split: option.splits flow.splits)

lemma uploadOne_errors:
  "reportedErrors (events (uploadOne env u p n i f st)) =
     reportedErrors (events st) @ (if failed env n i f then [i + 1] else [])"
  by (simp add: uploadOne_def uploadTry_def stored_def failed_def progressThrows_def Let_def
      reportedErrors_def errorIndex_def List.map_filter_def split: option.splits flow.splits)

lemma uploadLoop_orders:
  "map (\<lambda>r. (display_order r, is_featured r)) (uploadedImages (uploadLoop env u p n i fs st)) =
     map (\<lambda>r. (display_order r, is_featured r)) (uploadedImages st)
       @ map (\<lambda>(k, f). (k, k = 0)) (filter (\<lambda>(k, f). stored env k f) (enumerate i fs))"
  by (induction fs arbitrary: i st) (simp_all add: uploadOne_orders)

lemma uploadLoop_errors:
  "reportedErrors (events (uploadLoop env u p n i fs st)) =
     reportedErrors (events st)
       @ map (\<lambda>(k, f). k + 1) (filter (\<lambda>(k, f). failed env n k f) (enumerate i fs))"
  by (induction fs arbitrary: i st) (simp_all add: uploadOne_errors)

lemma uploadProductImages_orders:
  "map (\<lambda>r. (display_order r, is_featured r)) (fst (uploadProductImages env files u p)) =
     map (\<lambda>(k, f). (k, k = 0)) (filter (\<lambda>(k, f). stored env k f) (enumerate 0 files))"
  by (simp add: uploadProductImages_def Let_def uploadLoop_orders)

lemma uploadProductImages_errors:
  "reportedErrors (snd (uploadProductImages env files u p)) =
     map (\<lambda>(k, f). k + 1) (filter (\<lambda>(k, f). failed env (length files) k f) (enumerate 0 files))"
proof (cases "files = []")
  case True
  then show ?thesis
    by (simp add: uploadProductImages_def reportedErrors_def List.map_filter_def)
next
  case False
  have "reportedErrors (events \<lparr> uploadedImages = [], events = [], clock = 0 \<rparr>) = []"
    by (simp add: reportedErrors_def List.map_filter_def)
  with False show ?thesis
    by (simp add: uploadProductImages_def Let_def uploadLoop_errors)
qed

lemma uploadProductImages_display_order:
  "map display_order (fst (uploadProductImages env files u p)) =
     map fst (filter (\<lambda>(k, f). stored env k f) (enumerate 0 files))"
proof -
  have "map display_order (fst (uploadProductImages env files u p)) =
      map fst (map (\<lambda>r. (display_order r, is_featured r)) (fst (uploadProductImages env files u p)))"
    by (simp add: comp_def)
  also have "\<dots> = map fst (map (\<lambda>(k, f). (k, k = 0))
       (filter (\<lambda>(k, f). stored env k f) (enumerate 0 files)))"
    by (simp only: uploadProductImages_orders)
  also have "\<dots> = map fst (filter (\<lambda>(k, f). stored env k f) (enumerate 0 files))"
    by (simp add: comp_def case_prod_beta)
  finally show ?thesis .
qed

text \<open>
  C4: the pipeline returns a record for every file that was stored, in the order of the
  batch, whatever happened to the other files, and reports one error for every file whose
  processing failed. For a batch of three whose second file fails, it returns two records
  and reports an error for image 2 only.
\<close>

theorem upload_partial_success:
  "map display_order (fst (uploadProductImages env files u p)) =
     map fst (filter (\<lambda>(k, f). stored env k f) (enumerate 0 files))
   \<and> length (fst (uploadProductImages env files u p)) =
     length (filter (\<lambda>(k, f). stored env k f) (enumerate 0 files))
   \<and> reportedErrors (snd (uploadProductImages env files u p)) =
     map (\<lambda>(k, f). k + 1) (filter (\<lambda>(k, f). failed env (length files) k f) (enumerate 0 files))
   \<and> (stored env 0 f1 \<and> \<not> stored env 1 f2 \<and> stored env 2 f3
        \<and> \<not> progressThrows env 3 1 \<and> \<not> progressThrows env 3 3 \<longrightarrow>
        map display_order (fst (uploadProductImages env [f1, f2, f3] u p)) = [0, 2]
      \<and> length (fst (uploadProductImages env [f1, f2, f3] u p)) = 2
      \<and> reportedErrors (snd (uploadProductImages env [f1, f2, f3] u p)) = [2])"
proof -
  have a: "map display_order (fst (uploadProductImages env fs u p)) =
     map fst (filter (\<lambda>(k, f). stored env k f) (enumerate 0 fs))" for fs
    by (rule uploadProductImages_display_order)
  have b: "length (fst (uploadProductImages env fs u p)) =
     length (filter (\<lambda>(k, f). stored env k f) (enumerate 0 fs))" for fs
    using arg_cong [OF a [of fs], of length] by simp
  have c: "reportedErrors (snd (uploadProductImages env fs u p)) =
     map (\<lambda>(k, f). k + 1) (filter (\<lambda>(k, f). failed env (length fs) k f) (enumerate 0 fs))" for fs
    by (rule uploadProductImages_errors)
  have d: "map display_order (fst (uploadProductImages env [f1, f2, f3] u p)) = [0, 2]
      \<and> length (fst (uploadProductImages env [f1, f2, f3] u p)) = 2
      \<and> reportedErrors (snd (uploadProductImages env [f1, f2, f3] u p)) = [2]"
    if "stored env 0 f1" "\<not> stored env 1 f2" "stored env 2 f3"
       "\<not> progressThrows env 3 1" "\<not> progressThrows env 3 3"
    using that unfolding a b c
    by (simp add: enumerate_eq_zip failed_def upt_rec numeral_2_eq_2 numeral_3_eq_3)
  show ?thesis
    using a b c d by blast
qed

theorem upload_partial_success_witness:
  "stored (exampleUploadEnv 1) 0 (exampleFile ''a'')
   \<and> \<not> stored (exampleUploadEnv 1) 1 (exampleFile ''b'')
   \<and> stored (exampleUploadEnv 1) 2 (exampleFile ''c'')
   \<and> \<not> progressThrows (exampleUploadEnv 1) 3 1 \<and> \<not> progressThrows (exampleUploadEnv 1) 3 3
   \<and> length (fst (uploadProductImages (exampleUploadEnv 1)
        [exampleFile ''a'', exampleFile ''b'', exampleFile ''c''] ''user'' ''prod'')) = 2
   \<and> reportedErrors (snd (uploadProductImages (exampleUploadEnv 1)
        [exampleFile ''a'', exampleFile ''b'', exampleFile ''c''] ''user'' ''prod'')) = [2]"
proof -
  have s: "stored (exampleUploadEnv 1) 0 (exampleFile ''a'')"
      "\<not> stored (exampleUploadEnv 1) 1 (exampleFile ''b'')"
      "stored (exampleUploadEnv 1) 2 (exampleFile ''c'')"
    by (simp_all add: stored_def exampleUploadEnv_def)
  have t: "\<not> progressThrows (exampleUploadEnv 1) 3 1" "\<not> progressThrows (exampleUploadEnv 1) 3 3"
    by (simp_all add: progressThrows_def exampleUploadEnv_def)
  show ?thesis
    using s t upload_partial_success [of "exampleUploadEnv 1"
        "[exampleFile ''a'', exampleFile ''b'', exampleFile ''c'']" "''user''" "''prod''"
        "exampleFile ''a''" "exampleFile ''b''" "exampleFile ''c''"]
    by blast
qed

text \<open>
  When every file of the batch is stored, the records have the display orders
  \<open>0, 1, 2, \<dots>\<close> and the first one is the featured one.
\<close>

lemma upload_all_stored_dense:
  assumes "\<forall>(k, f) \<in> set (enumerate 0 files). stored env k f"
  shows "denseOrder (fst (uploadProductImages env files u p))
     \<and> featuredFirst (fst (uploadProductImages env files u p))"
proof -
  have flt: "filter (\<lambda>(k, f). stored env k f) (enumerate 0 files) = enumerate 0 files"
    using assms by (auto simp: filter_id_conv)
  have o: "map (\<lambda>r. (display_order r, is_featured r)) (fst (uploadProductImages env files u p)) =
     map (\<lambda>(k, f). (k, k = 0)) (enumerate 0 files)"
    using uploadProductImages_orders [of env files u p] flt by simp
  have len: "length (fst (uploadProductImages env files u p)) = length files"
    using arg_cong [OF o, of length] by simp
  have d: "map display_order (fst (uploadProductImages env files u p)) = [0 ..< length files]"
    using uploadProductImages_display_order [of env files u p] flt by (simp add: enumerate_eq_zip)
  have f: "map display_order (filter is_featured (fst (uploadProductImages env files u p)))
      = map fst (filter snd (map (\<lambda>r. (display_order r, is_featured r)) (fst (uploadProductImages env files u p))))"
    by (simp add: filter_map comp_def)
  have g: "map fst (filter snd (map (\<lambda>(k, f). (k, k = 0)) (enumerate 0 files)))
      = (if files = [] then [] else [0])"
  proof (cases files)
    case Nil
    then show ?thesis by simp
  next
    case (Cons x xs)
    have "filter (\<lambda>x. fst x = 0) (enumerate (Suc 0) xs) = []"
      by (auto simp: filter_empty_conv in_set_enumerate_eq)
    then show ?thesis using Cons
      by (simp add: filter_map comp_def case_prod_beta)
  qed
  show ?thesis
    unfolding denseOrder_def featuredFirst_def f o g d len
    using len by (cases files) auto
qed

text \<open>
  C2 does not hold of the code. The display order and the featured flag of a record are
  taken from the position of the file in the batch (lines 531 and 533), not from the
  position of the record among those returned: when the second of three uploads fails the
  display orders are 0 and 2, and when the first fails the list returned is not empty and
  has no featured record.
\<close>

theorem upload_failure_breaks_order:
  "map display_order (fst (uploadProductImages (exampleUploadEnv 1)
       [exampleFile ''a'', exampleFile ''b'', exampleFile ''c''] ''user'' ''prod'')) = [0, 2]
   \<and> \<not> denseOrder (fst (uploadProductImages (exampleUploadEnv 1)
       [exampleFile ''a'', exampleFile ''b'', exampleFile ''c''] ''user'' ''prod''))
   \<and> map (\<lambda>r. (display_order r, is_featured r)) (fst (uploadProductImages (exampleUploadEnv 0)
       [exampleFile ''a'', exampleFile ''b'', exampleFile ''c''] ''user'' ''prod''))
       = [(1, False), (2, False)]
   \<and> \<not> featuredFirst (fst (uploadProductImages (exampleUploadEnv 0)
       [exampleFile ''a'', exampleFile ''b'', exampleFile ''c''] ''user'' ''prod''))"
proof -
  let ?fs = "[exampleFile ''a'', exampleFile ''b'', exampleFile ''c'']"
  let ?r1 = "fst (uploadProductImages (exampleUploadEnv 1) ?fs ''user'' ''prod'')"
  let ?r0 = "fst (uploadProductImages (exampleUploadEnv 0) ?fs ''user'' ''prod'')"
  have a: "map (\<lambda>r. (display_order r, is_featured r)) ?r1 = [(0, True), (2, False)]"
    by (simp add: uploadProductImages_def uploadOne_def uploadTry_def exampleUploadEnv_def Let_def)
  have b: "map (\<lambda>r. (display_order r, is_featured r)) ?r0 = [(1, False), (2, False)]"
    by (simp add: uploadProductImages_def uploadOne_def uploadTry_def exampleUploadEnv_def Let_def)
  from a have a1: "map display_order ?r1 = [0, 2]"
    by (auto simp: map_eq_Cons_conv)
  from a1 have a2: "\<not> denseOrder ?r1"
    using arg_cong [OF a1, of length] by (simp add: denseOrder_def upt_rec)
  from b have b1: "map display_order (filter is_featured ?r0) = []" and b2: "?r0 \<noteq> []"
    by (auto simp: map_eq_Cons_conv)
  from b1 b2 have b3: "\<not> featuredFirst ?r0"
    by (simp add: featuredFirst_def)
  show ?thesis using a1 a2 b b3 by blast
qed

section \<open>Properties of the deletion\<close>

lemma deleteProductImage_resolves: "snd (deleteProductImage env imageUrl) = Resolved"
  by (simp add: deleteProductImage_def split: prod.splits settled.splits)

lemma deleteProductImage_events:
  "list_all (\<lambda>e. isStorageRemove e \<or> e = LogStorageError) (fst (deleteProductImage env imageUrl))"
  by (simp add: deleteProductImage_def deleteProductImage_try_def isStorageRemove_def
      split: prod.splits settled.splits option.splits)

lemma deleteAll_concat:
  "deleteAll env urls = concat (map (\<lambda>u. fst (deleteProductImage env u)) urls)"
proof (induction urls)
  case Nil
  then show ?case by simp
next
  case (Cons u us)
  obtain es r where d: "deleteProductImage env u = (es, r)" by (cases "deleteProductImage env u")
  with deleteProductImage_resolves [of env u] have "r = Resolved" by simp
  with d Cons show ?case by simp
qed

lemma deleteAll_events:
  "list_all (\<lambda>e. isStorageRemove e \<or> e = LogStorageError) (deleteAll env urls)"
  unfolding deleteAll_concat
  by (induction urls) (simp_all add: deleteProductImage_events)

lemma takeWhile_append_hit:
  "\<forall>x\<in>set xs. P x \<Longrightarrow> \<not> P y \<Longrightarrow> takeWhile P (xs @ y # ys) = xs"
  by (induction xs) simp_all

text \<open>
  C6: \<open>deleteProductImage\<close> always returns normally; when the storage fails to remove the
  object, the failure is logged. \<open>deleteProductImages\<close> always returns normally too, and
  once the records are read it requests the deletion of the rows after every removal from
  the storage has been attempted, whatever the outcome of these removals.
\<close>

theorem delete_best_effort:
  "snd (deleteProductImage env imageUrl) = Resolved
   \<and> (urlPathname env imageUrl = Some pathname \<and> storagePath pathname = Some path
        \<and> path \<noteq> [] \<and> \<not> storageRemove env path \<longrightarrow>
      deleteProductImage env imageUrl = ([StorageRemove path, LogStorageError], Resolved))
   \<and> snd (deleteProductImages env imageIds userId) = Resolved
   \<and> (dbSelectUrls env imageIds = Some urls \<longrightarrow>
        fst (deleteProductImages env imageIds userId) =
          DbSelectUrls imageIds # concat (map (\<lambda>u. fst (deleteProductImage env u)) urls)
            @ DbDeleteRows imageIds # (if dbDeleteRows env imageIds then [] else [LogDeleteError])
      \<and> filter isStorageRemove
            (takeWhile (\<lambda>e. e \<noteq> DbDeleteRows imageIds) (fst (deleteProductImages env imageIds userId)))
          = filter isStorageRemove (fst (deleteProductImages env imageIds userId)))"
proof -
  have a: "snd (deleteProductImage env imageUrl) = Resolved"
    by (rule deleteProductImage_resolves)
  have b: "urlPathname env imageUrl = Some pathname \<and> storagePath pathname = Some path
        \<and> path \<noteq> [] \<and> \<not> storageRemove env path \<longrightarrow>
      deleteProductImage env imageUrl = ([StorageRemove path, LogStorageError], Resolved)"
    by (simp add: deleteProductImage_def deleteProductImage_try_def)
  have c: "snd (deleteProductImages env imageIds userId) = Resolved"
    by (simp add: deleteProductImages_def split: prod.splits settled.splits)
  have d: "fst (deleteProductImages env imageIds userId) =
          DbSelectUrls imageIds # concat (map (\<lambda>u. fst (deleteProductImage env u)) urls)
            @ DbDeleteRows imageIds # (if dbDeleteRows env imageIds then [] else [LogDeleteError])"
    if "dbSelectUrls env imageIds = Some urls"
    using that
    by (simp add: deleteProductImages_def deleteProductImages_try_def deleteAll_concat)
  have e: "filter isStorageRemove
            (takeWhile (\<lambda>e. e \<noteq> DbDeleteRows imageIds) (fst (deleteProductImages env imageIds userId)))
          = filter isStorageRemove (fst (deleteProductImages env imageIds userId))"
    if sel: "dbSelectUrls env imageIds = Some urls"
  proof -
    let ?A = "DbSelectUrls imageIds # deleteAll env urls"
    let ?B = "if dbDeleteRows env imageIds then [] else [LogDeleteError]"
    have ev: "fst (deleteProductImages env imageIds userId) = ?A @ DbDeleteRows imageIds # ?B"
      using d [OF sel] by (simp add: deleteAll_concat)
    have "\<forall>x\<in>set (deleteAll env urls). x \<noteq> DbDeleteRows imageIds"
      using deleteAll_events [of env urls]
      by (auto simp: list_all_iff isStorageRemove_def)
    then have "\<forall>x\<in>set ?A. x \<noteq> DbDeleteRows imageIds" by simp
    then have tw: "takeWhile (\<lambda>e. e \<noteq> DbDeleteRows imageIds) (?A @ DbDeleteRows imageIds # ?B) = ?A"
      by (rule takeWhile_append_hit) simp
    show ?thesis
      unfolding ev tw by (simp add: isStorageRemove_def)
  qed
  show ?thesis using a b c d e by blast
qed

theorem delete_best_effort_witness:
  "urlPathname exampleDeleteEnv ''/storage/v1/object/public/product/u/gone.jpg''
       = Some ''/storage/v1/object/public/product/u/gone.jpg''
   \<and> storagePath ''/storage/v1/object/public/product/u/gone.jpg'' = Some ''product/u/gone.jpg''
   \<and> \<not> storageRemove exampleDeleteEnv ''product/u/gone.jpg''
   \<and> deleteProductImage exampleDeleteEnv ''/storage/v1/object/public/product/u/gone.jpg''
       = ([StorageRemove ''product/u/gone.jpg'', LogStorageError], Resolved)
   \<and> deleteProductImages exampleDeleteEnv [''1'', ''2'', ''3''] ''user'' =
       ([DbSelectUrls [''1'', ''2'', ''3''],
         StorageRemove ''product/u/gone.jpg'', LogStorageError,
         LogStorageError,
         StorageRemove ''product/u/b.jpg'',
         DbDeleteRows [''1'', ''2'', ''3'']], Resolved)"
proof -
  have p: "storagePath ''/storage/v1/object/public/product/u/gone.jpg'' = Some ''product/u/gone.jpg''"
    by (simp add: storagePath_def)
  have p2: "storagePath ''/storage/v1/object/public/product/u/b.jpg'' = Some ''product/u/b.jpg''"
    by (simp add: storagePath_def)
  have p3: "deleteProductImage exampleDeleteEnv ''bad'' = ([LogStorageError], Resolved)"
    by (simp add: deleteProductImage_def deleteProductImage_try_def exampleDeleteEnv_def)
  have p4: "deleteProductImage exampleDeleteEnv ''/storage/v1/object/public/product/u/b.jpg''
      = ([StorageRemove ''product/u/b.jpg''], Resolved)"
    by (simp add: deleteProductImage_def deleteProductImage_try_def exampleDeleteEnv_def p2)
  have u: "urlPathname exampleDeleteEnv ''/storage/v1/object/public/product/u/gone.jpg''
       = Some ''/storage/v1/object/public/product/u/gone.jpg''"
    by (simp add: exampleDeleteEnv_def)
  have r: "\<not> storageRemove exampleDeleteEnv ''product/u/gone.jpg''"
    by (simp add: exampleDeleteEnv_def)
  have sel: "dbSelectUrls exampleDeleteEnv [''1'', ''2'', ''3''] =
      Some [''/storage/v1/object/public/product/u/gone.jpg'', ''bad'',
            ''/storage/v1/object/public/product/u/b.jpg'']"
    by (simp add: exampleDeleteEnv_def)
  have del: "dbDeleteRows exampleDeleteEnv [''1'', ''2'', ''3'']"
    by (simp add: exampleDeleteEnv_def)
  note th = delete_best_effort [of exampleDeleteEnv
      "''/storage/v1/object/public/product/u/gone.jpg''"
      "''/storage/v1/object/public/product/u/gone.jpg''" "''product/u/gone.jpg''"
      "[''1'', ''2'', ''3'']" "''user''"
      "[''/storage/v1/object/public/product/u/gone.jpg'', ''bad'',
        ''/storage/v1/object/public/product/u/b.jpg'']"]
  from th u p r have one: "deleteProductImage exampleDeleteEnv ''/storage/v1/object/public/product/u/gone.jpg''
       = ([StorageRemove ''product/u/gone.jpg'', LogStorageError], Resolved)"
    by simp
  from th sel del have ev: "fst (deleteProductImages exampleDeleteEnv [''1'', ''2'', ''3''] ''user'')
      = [DbSelectUrls [''1'', ''2'', ''3''],
         StorageRemove ''product/u/gone.jpg'', LogStorageError,
         LogStorageError,
         StorageRemove ''product/u/b.jpg'',
         DbDeleteRows [''1'', ''2'', ''3'']]"
    by (simp add: one p3 p4)
  from th have "snd (deleteProductImages exampleDeleteEnv [''1'', ''2'', ''3''] ''user'') = Resolved"
    by simp
  with ev have "deleteProductImages exampleDeleteEnv [''1'', ''2'', ''3''] ''user'' =
       ([DbSelectUrls [''1'', ''2'', ''3''],
         StorageRemove ''product/u/gone.jpg'', LogStorageError,
         LogStorageError,
         StorageRemove ''product/u/b.jpg'',
         DbDeleteRows [''1'', ''2'', ''3'']], Resolved)"
    by (simp add: prod_eq_iff)
  with u p r one show ?thesis by simp
qed

end
